theory Spec2Isabelle
  imports Main "HOL-Library.Word"
begin

section \<open>Common definitions\<close>

text \<open>
  A shallow embedding of the storage manager (\<^verbatim>\<open>storage_mgr.c\<close>), the buffer manager
  and the record manager (\<^verbatim>\<open>record_mgr.c\<close>).

  C \<^verbatim>\<open>int\<close> values are modelled as \<^typ>\<open>int\<close>; where the source increments or
  multiplies a stored counter the 32-bit range is checked and leaving it is the outcome
  \<open>Inl SignedOverflow\<close>. Memory is modelled as byte lists; every access outside the
  allocated buffer, every dereference of a null pointer and every use of freed memory is
  an outcome \<open>Inl \<dots>\<close> of the model, not an unspecified value.
  Allocation (\<^verbatim>\<open>malloc\<close>, \<^verbatim>\<open>calloc\<close>) always succeeds, and a write to an existing
  file always writes all its bytes.
\<close>

type_synonym byte = "8 word"

datatype ub = OutOfBounds | NullDeref | SignedOverflow | UseAfterFree

type_synonym RC = int

definition PAGE_SIZE :: int where "PAGE_SIZE = 4096"

definition RC_OK :: RC where "RC_OK = 0"
definition RC_FILE_NOT_FOUND :: RC where "RC_FILE_NOT_FOUND = 1"
definition RC_FILE_HANDLE_NOT_INIT :: RC where "RC_FILE_HANDLE_NOT_INIT = 2"
definition RC_WRITE_FAILED :: RC where "RC_WRITE_FAILED = 3"
definition RC_READ_NON_EXISTING_PAGE :: RC where "RC_READ_NON_EXISTING_PAGE = 4"
definition RC_CREATE_FILE_FAIL :: RC where "RC_CREATE_FILE_FAIL = 5"
definition RC_GET_NUMBER_OF_BYTES_FAILED :: RC where "RC_GET_NUMBER_OF_BYTES_FAILED = 6"
definition RC_READ_FAILED :: RC where "RC_READ_FAILED = 7"
definition RC_SEEK_FAILED :: RC where "RC_SEEK_FAILED = 8"
definition RC_SHUTDOWN_POOL_FAILED :: RC where "RC_SHUTDOWN_POOL_FAILED = 9"
definition RC_STRATEGY_NOT_FOUND :: RC where "RC_STRATEGY_NOT_FOUND = 10"
definition RC_MEM_ALLOC_FAILED :: RC where "RC_MEM_ALLOC_FAILED = 11"
definition RC_PAGE_NOT_FOUND :: RC where "RC_PAGE_NOT_FOUND = 12"
definition RC_INVALID_SCHEMA :: RC where "RC_INVALID_SCHEMA = 13"
definition RC_FORCE_FLUSH_FAILED :: RC where "RC_FORCE_FLUSH_FAILED = 17"
definition RC_RM_NO_MORE_TUPLES :: RC where "RC_RM_NO_MORE_TUPLES = 203"
definition RC_RM_UNKOWN_DATATYPE :: RC where "RC_RM_UNKOWN_DATATYPE = 205"
definition RC_MEM_ALLOCATION_FAIL :: RC where "RC_MEM_ALLOCATION_FAIL = 206"
definition RC_RM_RECORD_NOT_EXIST :: RC where "RC_RM_RECORD_NOT_EXIST = 207"
definition RC_NULL_POINTER :: RC where "RC_NULL_POINTER = 308"
definition RC_INVALID_ATTR_NUM :: RC where "RC_INVALID_ATTR_NUM = 310"

lemmas RC_defs =
  RC_OK_def RC_FILE_NOT_FOUND_def RC_FILE_HANDLE_NOT_INIT_def RC_WRITE_FAILED_def
  RC_READ_NON_EXISTING_PAGE_def RC_CREATE_FILE_FAIL_def RC_GET_NUMBER_OF_BYTES_FAILED_def
  RC_READ_FAILED_def RC_SEEK_FAILED_def RC_SHUTDOWN_POOL_FAILED_def
  RC_STRATEGY_NOT_FOUND_def RC_MEM_ALLOC_FAILED_def RC_PAGE_NOT_FOUND_def
  RC_INVALID_SCHEMA_def RC_FORCE_FLUSH_FAILED_def RC_RM_NO_MORE_TUPLES_def
  RC_RM_UNKOWN_DATATYPE_def RC_MEM_ALLOCATION_FAIL_def RC_RM_RECORD_NOT_EXIST_def
  RC_NULL_POINTER_def RC_INVALID_ATTR_NUM_def

definition INT_MAX :: int where "INT_MAX = 2147483647"
definition INT_MIN :: int where "INT_MIN = - 2147483648"

text \<open>The result of a C \<^verbatim>\<open>int\<close> operation: the value when it is representable.\<close>

definition c_int :: "int \<Rightarrow> ub + int" where
  "c_int x = (if INT_MIN \<le> x \<and> x \<le> INT_MAX then Inr x else Inl SignedOverflow)"

text \<open>Sequencing of computations that may end in undefined behaviour.\<close>

definition bindU :: "ub + 'a \<Rightarrow> ('a \<Rightarrow> ub + 'b) \<Rightarrow> ub + 'b" where
  "bindU m f = (case m of Inl e \<Rightarrow> Inl e | Inr x \<Rightarrow> f x)"

subsection \<open>Buffers\<close>

text \<open>
  \<^verbatim>\<open>memcpy(buf + off, src, length src)\<close> into a buffer of \<open>length buf\<close> bytes, and
  \<^verbatim>\<open>memcpy(dst, buf + off, n)\<close> out of it.
\<close>

definition memcpy_to :: "byte list \<Rightarrow> int \<Rightarrow> byte list \<Rightarrow> ub + byte list" where
  "memcpy_to buf off src =
     (if 0 \<le> off \<and> off + int (length src) \<le> int (length buf)
      then Inr (take (nat off) buf @ src @ drop (nat off + length src) buf)
      else Inl OutOfBounds)"

definition memcpy_from :: "byte list \<Rightarrow> int \<Rightarrow> nat \<Rightarrow> ub + byte list" where
  "memcpy_from buf off n =
     (if 0 \<le> off \<and> off + int n \<le> int (length buf)
      then Inr (take n (drop (nat off) buf))
      else Inl OutOfBounds)"

text \<open>A 32-bit \<^verbatim>\<open>int\<close> in memory, least significant byte first (the host byte order).\<close>

definition int_bytes :: "int \<Rightarrow> byte list" where
  "int_bytes x = map (\<lambda>k. word_of_int (x div 256 ^ k)) [0, 1, 2, 3]"

definition bytes_int :: "byte list \<Rightarrow> int" where
  "bytes_int bs =
     (let u = uint (bs ! 0) + 256 * uint (bs ! 1) + 65536 * uint (bs ! 2)
              + 16777216 * uint (bs ! 3)
      in if u < 2147483648 then u else u - 4294967296)"

definition read_int :: "byte list \<Rightarrow> int \<Rightarrow> ub + int" where
  "read_int buf off = bindU (memcpy_from buf off 4) (\<lambda>bs. Inr (bytes_int bs))"

definition write_int :: "byte list \<Rightarrow> int \<Rightarrow> int \<Rightarrow> ub + byte list" where
  "write_int buf off x = memcpy_to buf off (int_bytes x)"

section \<open>Storage manager\<close>

text \<open>
  The file system maps a file name to the bytes of the file. \<^verbatim>\<open>fopen\<close> of a name
  that is not mapped fails; \<^verbatim>\<open>fseek\<close> to a negative offset fails and leaves the
  position where it was; \<^verbatim>\<open>fread\<close> returns the bytes that exist from the position on.
\<close>

type_synonym filesystem = "string \<Rightarrow> byte list option"

record SM_FileHandle =
  fileName :: string
  totalNumPages :: int
  curPagePos :: int

text \<open>\<^verbatim>\<open>fread(buf, 1, PAGE_SIZE, f)\<close> at position \<open>pos\<close>: the bytes read replace the front of \<open>buf\<close>.\<close>

definition fread_page :: "byte list \<Rightarrow> nat \<Rightarrow> byte list \<Rightarrow> nat \<times> byte list" where
  "fread_page file pos buf =
     (let got = take (nat PAGE_SIZE) (drop pos file)
      in (length got, got @ drop (length got) buf))"

text \<open>\<^verbatim>\<open>fwrite\<close> of \<open>src\<close> at position \<open>pos\<close> of a file opened \<^verbatim>\<open>"rb+"\<close>: a gap is zero-filled.\<close>

definition fwrite_at :: "byte list \<Rightarrow> nat \<Rightarrow> byte list \<Rightarrow> byte list" where
  "fwrite_at file pos src =
     take pos file @ replicate (pos - length file) 0 @ src @ drop (pos + length src) file"

text \<open>
  Whether \<^verbatim>\<open>fopen(fileName, "w")\<close> and the \<^verbatim>\<open>fwrite\<close> of the first page succeed is up
  to the environment; \<open>io\<close> tells it for every file name. A failed \<^verbatim>\<open>fopen\<close> leaves the
  file system as it was; after a failed \<^verbatim>\<open>fwrite\<close> the file is removed.
\<close>

datatype create_io = IoOk | OpenFails | WriteFails

definition createPageFile ::
  "(string \<Rightarrow> create_io) \<Rightarrow> filesystem \<Rightarrow> string \<Rightarrow> RC \<times> filesystem" where
  "createPageFile io fs name =
     (case io name of
        OpenFails \<Rightarrow> (RC_CREATE_FILE_FAIL, fs)
      | WriteFails \<Rightarrow> (RC_CREATE_FILE_FAIL, fs(name := None))
      | IoOk \<Rightarrow> (RC_OK, fs(name \<mapsto> replicate (nat PAGE_SIZE) 0)))"

definition openPageFile :: "filesystem \<Rightarrow> string \<Rightarrow> SM_FileHandle \<Rightarrow> RC \<times> SM_FileHandle" where
  "openPageFile fs name fHandle =
     (case fs name of
        None \<Rightarrow> (RC_FILE_NOT_FOUND, fHandle)
      | Some file \<Rightarrow>
          (let fileSize = int (length file)
           in (RC_OK, \<lparr>fileName = name,
                       totalNumPages = fileSize div PAGE_SIZE
                                        + (if fileSize mod PAGE_SIZE > 0 then 1 else 0),
                       curPagePos = 0\<rparr>)))"

definition closePageFile :: "SM_FileHandle \<Rightarrow> RC \<times> SM_FileHandle" where
  "closePageFile fHandle = (RC_OK, \<lparr>fileName = [], totalNumPages = 0, curPagePos = 0\<rparr>)"

definition readPreviousBlock ::
  "filesystem \<Rightarrow> SM_FileHandle \<Rightarrow> byte list \<Rightarrow> ub + (RC \<times> SM_FileHandle \<times> byte list)" where
  "readPreviousBlock fs fHandle memPage =
     (if \<not> (curPagePos fHandle \<ge> 0 \<and> curPagePos fHandle \<le> totalNumPages fHandle - 1)
      then Inr (RC_READ_NON_EXISTING_PAGE, fHandle, memPage)
      else case fs (fileName fHandle) of
        None \<Rightarrow> Inr (RC_FILE_NOT_FOUND, fHandle, memPage)
      | Some file \<Rightarrow>
          bindU (c_int ((curPagePos fHandle - 1) * PAGE_SIZE)) (\<lambda>offset.
            if offset < 0 then Inr (RC_READ_NON_EXISTING_PAGE, fHandle, memPage)
            else (case fread_page file (nat offset) memPage of (n, memPage') \<Rightarrow>
              if int n < PAGE_SIZE then Inr (RC_READ_FAILED, fHandle, memPage')
              else Inr (RC_OK, fHandle\<lparr>curPagePos := curPagePos fHandle - 1\<rparr>, memPage'))))"

definition appendEmptyBlock ::
  "filesystem \<Rightarrow> SM_FileHandle \<Rightarrow> ub + (RC \<times> filesystem \<times> SM_FileHandle)" where
  "appendEmptyBlock fs fHandle =
     (let file = (case fs (fileName fHandle) of None \<Rightarrow> [] | Some f \<Rightarrow> f)
      in bindU (c_int (totalNumPages fHandle + 1)) (\<lambda>n.
           Inr (RC_OK, fs(fileName fHandle \<mapsto> file @ replicate (nat PAGE_SIZE) 0),
                fHandle\<lparr>totalNumPages := n\<rparr>)))"

definition ensureCapacity ::
  "int \<Rightarrow> filesystem \<Rightarrow> SM_FileHandle \<Rightarrow> ub + (RC \<times> filesystem \<times> SM_FileHandle)" where
  "ensureCapacity numberOfPages fs fHandle =
     (if totalNumPages fHandle \<ge> numberOfPages then Inr (RC_OK, fs, fHandle)
      else
        let file = (case fs (fileName fHandle) of None \<Rightarrow> [] | Some f \<Rightarrow> f)
        in bindU (c_int (numberOfPages - totalNumPages fHandle)) (\<lambda>d.
           bindU (c_int (d * PAGE_SIZE)) (\<lambda>additionalCapacity.
             Inr (RC_OK,
                  fs(fileName fHandle \<mapsto> file @ replicate (nat additionalCapacity) 0),
                  fHandle\<lparr>totalNumPages := numberOfPages\<rparr>))))"

definition writeBlock ::
  "int \<Rightarrow> filesystem \<Rightarrow> SM_FileHandle \<Rightarrow> byte list
     \<Rightarrow> ub + (RC \<times> filesystem \<times> SM_FileHandle)" where
  "writeBlock pageNum fs fHandle memPage =
     bindU (c_int (pageNum + 1)) (\<lambda>n.
     bindU (ensureCapacity n fs fHandle) (\<lambda>(rc, fs1, fh1).
       if rc \<noteq> RC_OK then Inr (rc, fs1, fh1)
       else case fs1 (fileName fh1) of
         None \<Rightarrow> Inr (RC_FILE_NOT_FOUND, fs1, fh1)
       | Some file \<Rightarrow>
           if pageNum * PAGE_SIZE < 0 then Inr (RC_SEEK_FAILED, fs1, fh1)
           else if int (length memPage) < PAGE_SIZE then Inl OutOfBounds
           else Inr (RC_OK,
                     fs1(fileName fh1 \<mapsto>
                           fwrite_at file (nat (pageNum * PAGE_SIZE)) (take (nat PAGE_SIZE) memPage)),
                     fh1\<lparr>curPagePos := pageNum\<rparr>)))"

section \<open>Schemas, records and attribute values\<close>

text \<open>
  A schema's parallel arrays \<^verbatim>\<open>attrNames\<close>, \<^verbatim>\<open>dataTypes\<close> and \<^verbatim>\<open>typeLength\<close>
  are one list of attributes, so \<^verbatim>\<open>numAttr\<close> is its length; \<^verbatim>\<open>keySize\<close> is the
  length of \<open>keyAttrs\<close>. Sums of attribute sizes are taken in a C \<^verbatim>\<open>int\<close>: a sum
  outside its range is the outcome \<open>Inl SignedOverflow\<close>.
  The characters of a C string are the bytes before its terminating zero byte.
\<close>

datatype DataType = DT_INT | DT_STRING | DT_FLOAT | DT_BOOL

type_synonym Attr = "string \<times> DataType \<times> int"

record Schema =
  attrs :: "Attr list"
  keyAttrs :: "int list"

definition numAttr :: "Schema \<Rightarrow> int" where
  "numAttr schema = int (length (attrs schema))"

definition keySize :: "Schema \<Rightarrow> int" where
  "keySize schema = int (length (keyAttrs schema))"

record RID =
  page :: int
  slot :: int

record Record =
  id_r :: RID
  data_r :: "byte list"

datatype Value = IntV int | StringV "byte list" | FloatV "32 word" | BoolV bool

text \<open>The bytes one attribute occupies in a record: the branches of the size loops.\<close>

fun attrSize :: "Attr \<Rightarrow> int" where
  "attrSize (nm, DT_BOOL, len) = 1"
| "attrSize (nm, DT_INT, len) = 4"
| "attrSize (nm, DT_FLOAT, len) = 4"
| "attrSize (nm, DT_STRING, len) = len"

text \<open>The loop \<^verbatim>\<open>totalSize += ...\<close> over the attributes, from the sum so far.\<close>

fun add_sizes :: "int \<Rightarrow> Attr list \<Rightarrow> ub + int" where
  "add_sizes totalSize [] = Inr totalSize"
| "add_sizes totalSize (a # as) =
     bindU (c_int (totalSize + attrSize a)) (\<lambda>t. add_sizes t as)"

definition getRecordSize :: "Schema \<Rightarrow> ub + int" where
  "getRecordSize schema = add_sizes 0 (attrs schema)"

text \<open>The offset loop of \<^verbatim>\<open>getAttr\<close> and \<^verbatim>\<open>setAttr\<close>, over the attributes before \<open>attributeNumber\<close>.\<close>

definition attrOffset :: "Schema \<Rightarrow> nat \<Rightarrow> ub + int" where
  "attrOffset schema attributeNumber = add_sizes 0 (take attributeNumber (attrs schema))"

text \<open>The sum of the attribute sizes as a number, whatever its size.\<close>

definition sizeSum :: "Attr list \<Rightarrow> int" where
  "sizeSum as = sum_list (map attrSize as)"

text \<open>\<^verbatim>\<open>strncpy(dst, s, n)\<close> writes exactly \<open>n\<close> bytes: the characters of \<open>s\<close>, then zeros.\<close>

definition strncpy_bytes :: "byte list \<Rightarrow> nat \<Rightarrow> byte list" where
  "strncpy_bytes s n = take n (takeWhile (\<lambda>c. c \<noteq> 0) s @ replicate n 0)"

text \<open>
  \<^verbatim>\<open>setAttr\<close> reads the member of the value's union that the schema's data type names;
  a value of another type there is the outcome \<open>Inl TypePun\<close>. The offset is summed up
  before the data type is looked at.
\<close>

datatype codec_ub = MemoryError ub | TypePun

definition liftU :: "ub + 'a \<Rightarrow> codec_ub + 'a" where
  "liftU m = (case m of Inl e \<Rightarrow> Inl (MemoryError e) | Inr x \<Rightarrow> Inr x)"

definition setAttr :: "Record \<Rightarrow> Schema \<Rightarrow> int \<Rightarrow> Value \<Rightarrow> codec_ub + (RC \<times> Record)" where
  "setAttr record schema attributeNumber value =
     (if attributeNumber < 0 \<or> attributeNumber \<ge> numAttr schema
      then Inr (RC_INVALID_ATTR_NUM, record)
      else
        case attrOffset schema (nat attributeNumber) of
          Inl e \<Rightarrow> Inl (MemoryError e)
        | Inr offset \<Rightarrow>
        let store = (\<lambda>d. Inr (RC_OK, record\<lparr>data_r := d\<rparr>))
        in case attrs schema ! nat attributeNumber of (nm, dt, len) \<Rightarrow>
          (case dt of
             DT_BOOL \<Rightarrow>
               (case value of
                  BoolV b \<Rightarrow>
                    liftU (bindU (memcpy_to (data_r record) offset [if b then 1 else 0]) store)
                | _ \<Rightarrow> Inl TypePun)
           | DT_INT \<Rightarrow>
               (case value of
                  IntV i \<Rightarrow> liftU (bindU (memcpy_to (data_r record) offset (int_bytes i)) store)
                | _ \<Rightarrow> Inl TypePun)
           | DT_FLOAT \<Rightarrow>
               (case value of
                  FloatV f \<Rightarrow>
                    liftU (bindU (memcpy_to (data_r record) offset (int_bytes (uint f))) store)
                | _ \<Rightarrow> Inl TypePun)
           | DT_STRING \<Rightarrow>
               (case value of
                  StringV s \<Rightarrow>
                    if len < 0 then Inl (MemoryError OutOfBounds)
                    else liftU
                      (bindU (memcpy_to (data_r record) offset (strncpy_bytes s (nat len)))
                         (\<lambda>d. bindU (c_int (offset + len)) (\<lambda>pos.
                              bindU (memcpy_to d pos [0]) store)))
                | _ \<Rightarrow> Inl TypePun)))"

subsection \<open>Example schemas and records\<close>

text \<open>The schema \<open>(a: INT, b: STRING[4])\<close> with key \<open>a\<close>, and one with the string first.\<close>

definition schema_ab :: Schema where
  "schema_ab = \<lparr>attrs = [(''a'', DT_INT, 0), (''b'', DT_STRING, 4)], keyAttrs = [0]\<rparr>"

definition schema_sa :: Schema where
  "schema_sa = \<lparr>attrs = [(''s'', DT_STRING, 4), (''a'', DT_INT, 0)], keyAttrs = [1]\<rparr>"

definition record_sa :: Record where
  "record_sa = \<lparr>id_r = \<lparr>page = 0, slot = 0\<rparr>, data_r = [0, 0, 0, 0, 7, 0, 0, 0]\<rparr>"

definition record_ab :: Record where
  "record_ab = \<lparr>id_r = \<lparr>page = 0, slot = 0\<rparr>, data_r = [1, 0, 0, 0, 0, 0, 0, 0]\<rparr>"

text \<open>A schema whose second attribute is an empty string, and a record of its four bytes.\<close>

definition schema_s0 :: Schema where
  "schema_s0 = \<lparr>attrs = [(''s'', DT_STRING, 4), (''t'', DT_STRING, 0)], keyAttrs = [0]\<rparr>"

definition record_s0 :: Record where
  "record_s0 = \<lparr>id_r = \<lparr>page = 0, slot = 0\<rparr>, data_r = [0, 0, 0, 0]\<rparr>"

section \<open>Buffer manager\<close>

text \<open>
  The page buffers that \<^verbatim>\<open>pinPage\<close> allocates live in a store: a page handle's
  \<open>data\<close> is the address of a buffer (\<open>None\<close> is the null pointer), so the handle that
  \<^verbatim>\<open>pinPage\<close> fills in and the frame share one buffer, as in the source. The integer a
  frame's \<^verbatim>\<open>strategyAttribute\<close> points to is kept in the frame (\<open>None\<close>: not yet
  allocated). The frame array \<open>mgmtData\<close> is a list; it is empty once freed.
\<close>

datatype ReplacementStrategy = RS_FIFO | RS_LRU | RS_CLOCK | RS_LFU | RS_LRU_K

definition NO_PAGE :: int where "NO_PAGE = - 1"

record BM_PageHandle =
  pageNum :: int
  data :: "nat option"
  dirty :: bool
  fixCounts :: int
  strategyAttribute :: "int option"

record BM_BufferPool =
  pageFile :: string
  numPages :: int
  strategy :: ReplacementStrategy
  mgmtData :: "BM_PageHandle list"
  numReadIO :: int
  numWriteIO :: int
  timer :: int

record world =
  files :: filesystem
  heap :: "nat \<Rightarrow> byte list option"
  next_addr :: nat

text \<open>\<^verbatim>\<open>calloc(PAGE_SIZE, sizeof(char))\<close>: a fresh zero-filled buffer.\<close>

definition calloc_page :: "world \<Rightarrow> nat \<times> world" where
  "calloc_page w =
     (next_addr w,
      w\<lparr>heap := (heap w)(next_addr w \<mapsto> replicate (nat PAGE_SIZE) 0),
        next_addr := Suc (next_addr w)\<rparr>)"

text \<open>\<^verbatim>\<open>mgmtData[i]\<close>, read and written.\<close>

definition frame_at :: "BM_BufferPool \<Rightarrow> int \<Rightarrow> ub + BM_PageHandle" where
  "frame_at bm i =
     (if 0 \<le> i \<and> i < int (length (mgmtData bm)) then Inr (mgmtData bm ! nat i)
      else Inl OutOfBounds)"

definition set_frame :: "BM_BufferPool \<Rightarrow> int \<Rightarrow> BM_PageHandle \<Rightarrow> BM_BufferPool" where
  "set_frame bm i f = bm\<lparr>mgmtData := (mgmtData bm)[nat i := f]\<rparr>"

fun mapU :: "('a \<Rightarrow> ub + 'b) \<Rightarrow> 'a list \<Rightarrow> ub + 'b list" where
  "mapU f [] = Inr []"
| "mapU f (x # xs) = bindU (f x) (\<lambda>y. bindU (mapU f xs) (\<lambda>ys. Inr (y # ys)))"

text \<open>The position of a stream after \<^verbatim>\<open>fseek(f, off, SEEK_SET)\<close> on a freshly opened file.\<close>

definition seek_pos :: "int \<Rightarrow> nat" where
  "seek_pos off = (if off < 0 then 0 else nat off)"

definition initBufferPool ::
  "world \<Rightarrow> BM_BufferPool \<Rightarrow> string \<Rightarrow> int \<Rightarrow> ReplacementStrategy \<Rightarrow> RC \<times> BM_BufferPool" where
  "initBufferPool w bufferPool fname totalPages replStrategy =
     (case files w fname of
        None \<Rightarrow> (RC_FILE_NOT_FOUND, bufferPool)
      | Some file \<Rightarrow>
          let bp = bufferPool\<lparr>pageFile := fname, numPages := totalPages,
                               strategy := replStrategy\<rparr>
          in if totalPages < 0 then (RC_MEM_ALLOCATION_FAIL, bp)
             else (RC_OK,
                   bp\<lparr>mgmtData := replicate (nat totalPages)
                                     \<lparr>pageNum = NO_PAGE, data = None, dirty = False,
                                      fixCounts = 0, strategyAttribute = None\<rparr>,
                      numReadIO := 0, numWriteIO := 0, timer := 0\<rparr>))"

text \<open>
  \<^verbatim>\<open>getFixCounts\<close> is a do-while loop: it reads frame 0 and writes element 0 of its
  result even when \<^verbatim>\<open>numPages\<close> is not positive.
\<close>

definition getFixCounts :: "BM_BufferPool \<Rightarrow> ub + int list" where
  "getFixCounts bufferPool =
     (if numPages bufferPool < 0 then Inl NullDeref
      else if numPages bufferPool = 0 then Inl OutOfBounds
      else mapU (\<lambda>i. bindU (frame_at bufferPool (int i)) (\<lambda>f. Inr (fixCounts f)))
             [0..<nat (numPages bufferPool)])"

definition getDirtyFlags :: "BM_BufferPool \<Rightarrow> ub + bool list option" where
  "getDirtyFlags pool =
     (if numPages pool \<le> 0 then Inr None
      else bindU
        (mapU (\<lambda>i. bindU (frame_at pool (int i))
                 (\<lambda>f. Inr (if data f \<noteq> None then dirty f else False)))
           [0..<nat (numPages pool)])
        (\<lambda>dirtyFlags. Inr (Some dirtyFlags)))"

definition getAttributionArray :: "BM_BufferPool \<Rightarrow> ub + int list option" where
  "getAttributionArray bm =
     (if numPages bm \<le> 0 then Inr None
      else bindU
        (mapU (\<lambda>i. bindU (frame_at bm (int i))
                 (\<lambda>f. case strategyAttribute f of None \<Rightarrow> Inl NullDeref | Some a \<Rightarrow> Inr a))
           [0..<nat (numPages bm)])
        (\<lambda>strategyAttributes. Inr (Some strategyAttributes)))"

text \<open>The victim search: one step of its loop, on \<open>(lowestAttribute, pageToEvict)\<close>.\<close>

definition evict_step :: "int list \<Rightarrow> int list \<Rightarrow> int \<times> int \<Rightarrow> nat \<Rightarrow> int \<times> int" where
  "evict_step pageAttributes fixCountsA st i =
     (case st of (lowestAttribute, pageToEvict) \<Rightarrow>
        if fixCountsA ! i = 0 \<and> pageAttributes ! i < lowestAttribute
        then (pageAttributes ! i, int i)
        else (lowestAttribute, pageToEvict))"

definition strategyFIFOandLRU :: "BM_BufferPool \<Rightarrow> ub + (int \<times> BM_BufferPool)" where
  "strategyFIFOandLRU bufferPool =
     bindU (getAttributionArray bufferPool) (\<lambda>pageAttributesP.
     bindU (getFixCounts bufferPool) (\<lambda>fixCountsA.
       case pageAttributesP of
         None \<Rightarrow> Inl NullDeref
       | Some pageAttributes \<Rightarrow>
          (case foldl (evict_step pageAttributes fixCountsA) (timer bufferPool, - 1)
                  [0..<nat (numPages bufferPool)] of
             (lowestAttribute, pageToEvict) \<Rightarrow>
               if timer bufferPool > 32000 \<and> pageToEvict \<noteq> - 1
               then
                 bindU (mapU (\<lambda>f. case strategyAttribute f of
                                     None \<Rightarrow> Inr f
                                   | Some a \<Rightarrow> bindU (c_int (a - lowestAttribute))
                                       (\<lambda>a'. Inr (f\<lparr>strategyAttribute := Some a'\<rparr>)))
                          (take (nat (numPages bufferPool)) (mgmtData bufferPool))) (\<lambda>fs.
                 bindU (c_int (timer bufferPool - lowestAttribute)) (\<lambda>t.
                   Inr (pageToEvict,
                        bufferPool\<lparr>mgmtData := fs @ drop (nat (numPages bufferPool))
                                                         (mgmtData bufferPool),
                                   timer := t\<rparr>)))
               else Inr (pageToEvict, bufferPool))))"

text \<open>The loop of \<^verbatim>\<open>forcePage\<close> that clears the dirty flag of the first frame holding the page.\<close>

fun clear_dirty :: "BM_BufferPool \<Rightarrow> int \<Rightarrow> nat list \<Rightarrow> ub + BM_BufferPool" where
  "clear_dirty bm pn [] = Inr bm"
| "clear_dirty bm pn (i # rest) =
     bindU (frame_at bm (int i)) (\<lambda>currentPage.
       if pageNum currentPage = pn
       then Inr (set_frame bm (int i) (currentPage\<lparr>dirty := False\<rparr>))
       else clear_dirty bm pn rest)"

definition forcePage ::
  "world \<Rightarrow> BM_BufferPool \<Rightarrow> BM_PageHandle
     \<Rightarrow> ub + (RC \<times> world \<times> BM_BufferPool \<times> BM_PageHandle)" where
  "forcePage w bufferPool h =
     (case files w (pageFile bufferPool) of
        None \<Rightarrow> Inr (RC_FILE_NOT_FOUND, w, bufferPool, h)
      | Some file \<Rightarrow>
          bindU (c_int (pageNum h * PAGE_SIZE)) (\<lambda>off.
          case data h of
            None \<Rightarrow> Inl NullDeref
          | Some a \<Rightarrow>
             (case heap w a of
                None \<Rightarrow> Inl UseAfterFree
              | Some buf \<Rightarrow>
                  bindU (memcpy_from buf 0 (nat PAGE_SIZE)) (\<lambda>bytes.
                  bindU (c_int (numWriteIO bufferPool + 1)) (\<lambda>nw.
                  bindU (clear_dirty (bufferPool\<lparr>numWriteIO := nw\<rparr>) (pageNum h)
                           [0..<nat (numPages bufferPool)]) (\<lambda>bm'.
                    Inr (RC_OK,
                         w\<lparr>files := (files w)(pageFile bufferPool \<mapsto>
                                       fwrite_at file (seek_pos off) bytes)\<rparr>,
                         bm', h\<lparr>dirty := False\<rparr>)))))))"

text \<open>
  \<^verbatim>\<open>forcePage(bm, &bm->mgmtData[i])\<close>: the handle passed is frame \<open>i\<close> itself, so the
  final \<^verbatim>\<open>page->dirty = 0\<close> clears that frame's flag.
\<close>

definition forcePage_frame ::
  "world \<Rightarrow> BM_BufferPool \<Rightarrow> int \<Rightarrow> ub + (RC \<times> world \<times> BM_BufferPool)" where
  "forcePage_frame w bm i =
     bindU (frame_at bm i) (\<lambda>f.
     bindU (forcePage w bm f) (\<lambda>(rc, w', bm', h').
       if rc = RC_OK
       then bindU (frame_at bm' i) (\<lambda>f'. Inr (rc, w', set_frame bm' i (f'\<lparr>dirty := False\<rparr>)))
       else Inr (rc, w', bm')))"

fun flush_loop ::
  "world \<Rightarrow> BM_BufferPool \<Rightarrow> bool list \<Rightarrow> int list \<Rightarrow> nat list
     \<Rightarrow> ub + (RC \<times> world \<times> BM_BufferPool)" where
  "flush_loop w bm dirtyFlags fixCountsA [] = Inr (RC_OK, w, bm)"
| "flush_loop w bm dirtyFlags fixCountsA (i # rest) =
     (if dirtyFlags ! i \<and> fixCountsA ! i = 0
      then bindU (forcePage_frame w bm (int i)) (\<lambda>(rc_flag, w', bm').
             if rc_flag \<noteq> RC_OK then Inr (rc_flag, w', bm')
             else bindU (frame_at bm' (int i)) (\<lambda>f.
                    flush_loop w' (set_frame bm' (int i) (f\<lparr>dirty := False\<rparr>))
                      dirtyFlags fixCountsA rest))
      else flush_loop w bm dirtyFlags fixCountsA rest)"

definition forceFlushPool ::
  "world \<Rightarrow> BM_BufferPool \<Rightarrow> ub + (RC \<times> world \<times> BM_BufferPool)" where
  "forceFlushPool w bm =
     bindU (getDirtyFlags bm) (\<lambda>dirtyFlagsP.
     bindU (getFixCounts bm) (\<lambda>fixCountsA.
       case dirtyFlagsP of
         None \<Rightarrow> Inr (RC_FORCE_FLUSH_FAILED, w, bm)
       | Some dirtyFlags \<Rightarrow> flush_loop w bm dirtyFlags fixCountsA [0..<nat (numPages bm)]))"

fun markDirty_loop :: "BM_BufferPool \<Rightarrow> int \<Rightarrow> nat list \<Rightarrow> ub + (RC \<times> BM_BufferPool)" where
  "markDirty_loop bm pn [] = Inr (RC_PAGE_NOT_FOUND, bm)"
| "markDirty_loop bm pn (i # rest) =
     bindU (frame_at bm (int i)) (\<lambda>currentPage.
       if pageNum currentPage = pn
       then Inr (RC_OK, set_frame bm (int i) (currentPage\<lparr>dirty := True\<rparr>))
       else markDirty_loop bm pn rest)"

definition markDirty ::
  "BM_BufferPool \<Rightarrow> BM_PageHandle \<Rightarrow> ub + (RC \<times> BM_BufferPool \<times> BM_PageHandle)" where
  "markDirty bm h =
     bindU (markDirty_loop bm (pageNum h) [0..<nat (numPages bm)]) (\<lambda>(rc, bm').
       Inr (rc, bm', if rc = RC_OK then h\<lparr>dirty := True\<rparr> else h))"

fun unpinPage_loop :: "BM_BufferPool \<Rightarrow> int \<Rightarrow> nat list \<Rightarrow> ub + BM_BufferPool" where
  "unpinPage_loop bufferPool pn [] = Inr bufferPool"
| "unpinPage_loop bufferPool pn (pageIndex # rest) =
     bindU (frame_at bufferPool (int pageIndex)) (\<lambda>f.
       if pageNum f = pn
       then bindU (c_int (fixCounts f - 1)) (\<lambda>c.
              Inr (set_frame bufferPool (int pageIndex) (f\<lparr>fixCounts := c\<rparr>)))
       else unpinPage_loop bufferPool pn rest)"

definition unpinPage :: "BM_BufferPool \<Rightarrow> BM_PageHandle \<Rightarrow> ub + (RC \<times> BM_BufferPool)" where
  "unpinPage bufferPool targetPage =
     bindU (unpinPage_loop bufferPool (pageNum targetPage) [0..<nat (numPages bufferPool)])
       (\<lambda>bm'. Inr (RC_OK, bm'))"

text \<open>The first loop of \<^verbatim>\<open>shutdownBufferPool\<close>: is some frame still fixed?\<close>

fun shutdown_check :: "BM_BufferPool \<Rightarrow> nat list \<Rightarrow> ub + bool" where
  "shutdown_check bufferPool [] = Inr False"
| "shutdown_check bufferPool (pageIndex # rest) =
     bindU (getFixCounts bufferPool) (\<lambda>fc.
       if fc ! pageIndex \<noteq> 0 then Inr True else shutdown_check bufferPool rest)"

definition free_frames :: "world \<Rightarrow> BM_PageHandle list \<Rightarrow> world" where
  "free_frames w fs = w\<lparr>heap := (\<lambda>a. if Some a \<in> set (map data fs) then None else heap w a)\<rparr>"

definition shutdownBufferPool ::
  "world \<Rightarrow> BM_BufferPool \<Rightarrow> ub + (RC \<times> world \<times> BM_BufferPool)" where
  "shutdownBufferPool w bufferPool =
     bindU (shutdown_check bufferPool [0..<nat (numPages bufferPool)]) (\<lambda>fixed.
       if fixed then Inr (RC_SHUTDOWN_POOL_FAILED, w, bufferPool)
       else bindU (forceFlushPool w bufferPool) (\<lambda>(rc_flag, w', bm').
         if rc_flag \<noteq> RC_OK then Inr (rc_flag, w', bm')
         else if int (length (mgmtData bm')) < numPages bm' then Inl OutOfBounds
         else Inr (RC_OK, free_frames w' (take (nat (numPages bm')) (mgmtData bm')),
                   bm'\<lparr>mgmtData := []\<rparr>)))"

text \<open>
  The scan loop of \<^verbatim>\<open>pinPage\<close>, with its variables \<open>flag\<close> and \<open>pnum\<close>. A
  \<^verbatim>\<open>break\<close> returns at once; the third branch, taken at the last index only, goes on to
  the end of the loop.
\<close>

fun pinPage_loop ::
  "world \<Rightarrow> BM_BufferPool \<Rightarrow> int \<Rightarrow> int \<Rightarrow> int \<Rightarrow> nat list
     \<Rightarrow> ub + (world \<times> BM_BufferPool \<times> int \<times> int)" where
  "pinPage_loop w bufferPool pn flag pnum [] = Inr (w, bufferPool, flag, pnum)"
| "pinPage_loop w bufferPool pn flag pnum (pageIndex # rest) =
     bindU (frame_at bufferPool (int pageIndex)) (\<lambda>f.
       if pageNum f = NO_PAGE
       then (case calloc_page w of (a, w') \<Rightarrow>
               Inr (w', set_frame bufferPool (int pageIndex) (f\<lparr>data := Some a\<rparr>),
                    1, int pageIndex))
       else if pageNum f = pn
       then (if strategy bufferPool = RS_LRU
             then bindU (c_int (timer bufferPool + 1)) (\<lambda>t.
                    Inr (w, (set_frame bufferPool (int pageIndex)
                               (f\<lparr>strategyAttribute := Some (timer bufferPool)\<rparr>))
                            \<lparr>timer := t\<rparr>,
                         2, int pageIndex))
             else Inr (w, bufferPool, 2, int pageIndex))
       else if int pageIndex = numPages bufferPool - 1
       then (if strategy bufferPool = RS_FIFO \<or> strategy bufferPool = RS_LRU
             then bindU (strategyFIFOandLRU bufferPool) (\<lambda>(pnum', bm1).
                  bindU (frame_at bm1 pnum') (\<lambda>victim.
                    if dirty victim
                    then bindU (forcePage_frame w bm1 pnum') (\<lambda>(rc, w2, bm2).
                           pinPage_loop w2 bm2 pn 1 pnum' rest)
                    else pinPage_loop w bm1 pn 1 pnum' rest))
             else pinPage_loop w bufferPool pn 1 pnum rest)
       else pinPage_loop w bufferPool pn flag pnum rest)"

definition pinPage ::
  "world \<Rightarrow> BM_BufferPool \<Rightarrow> BM_PageHandle \<Rightarrow> int
     \<Rightarrow> ub + (RC \<times> world \<times> BM_BufferPool \<times> BM_PageHandle)" where
  "pinPage w bufferPool pageHandle pn =
     bindU (pinPage_loop w bufferPool pn 0 (- 1) [0..<nat (numPages bufferPool)])
       (\<lambda>(w1, bm1, flag, pnum).
         if flag = 1 then
           (case files w1 (pageFile bm1) of
              None \<Rightarrow> Inl NullDeref
            | Some file \<Rightarrow>
                bindU (c_int (pn * PAGE_SIZE)) (\<lambda>off.
                bindU (frame_at bm1 pnum) (\<lambda>f.
                  case data f of
                    None \<Rightarrow> Inl NullDeref
                  | Some a \<Rightarrow>
                     (case heap w1 a of
                        None \<Rightarrow> Inl UseAfterFree
                      | Some buf \<Rightarrow>
                          let w2 = w1\<lparr>heap := (heap w1)(a \<mapsto>
                                       snd (fread_page file (seek_pos off) buf))\<rparr>
                          in bindU (c_int (numReadIO bm1 + 1)) (\<lambda>nr.
                             bindU (c_int (fixCounts f + 1)) (\<lambda>fc.
                               let f1 = f\<lparr>fixCounts := fc, pageNum := pn\<rparr>;
                                   h' = \<lparr>pageNum = pn, data = data f1, dirty = dirty f1,
                                         fixCounts = fc,
                                         strategyAttribute = strategyAttribute f1\<rparr>;
                                   bm2 = (set_frame bm1 pnum f1)\<lparr>numReadIO := nr\<rparr>
                               in if strategy bm2 \<noteq> RS_FIFO \<and> strategy bm2 \<noteq> RS_LRU
                                  then Inr (RC_STRATEGY_NOT_FOUND, w2, bm2, h')
                                  else bindU (c_int (timer bm2 + 1)) (\<lambda>t.
                                    Inr (RC_OK, w2,
                                         (set_frame bm2 pnum
                                            (f1\<lparr>strategyAttribute := Some (timer bm2)\<rparr>))
                                           \<lparr>timer := t\<rparr>,
                                         h'))))))))
         else if flag = 2 then
           bindU (frame_at bm1 pnum) (\<lambda>f.
           bindU (c_int (fixCounts f + 1)) (\<lambda>fc.
             let f1 = f\<lparr>fixCounts := fc\<rparr>
             in Inr (RC_OK, w1, set_frame bm1 pnum f1,
                     \<lparr>pageNum = pn, data = data f1, dirty = dirty f1, fixCounts = fc,
                      strategyAttribute = strategyAttribute f1\<rparr>)))
         else Inr (RC_OK, w1, bm1, pageHandle))"

text \<open>\<^verbatim>\<open>getFrameContents\<close>: the page number of every frame that has a buffer.\<close>

definition getFrameContents :: "BM_BufferPool \<Rightarrow> ub + int list" where
  "getFrameContents bufferMgr =
     mapU (\<lambda>i. bindU (frame_at bufferMgr (int i))
             (\<lambda>h. Inr (if data h \<noteq> None then pageNum h else NO_PAGE)))
       [0..<nat (numPages bufferMgr)]"

subsection \<open>Clients of the buffer manager\<close>

text \<open>A client that pins a page and unpins it at once through the handle it got.\<close>

definition pin_unpin ::
  "world \<Rightarrow> BM_BufferPool \<Rightarrow> BM_PageHandle \<Rightarrow> int
     \<Rightarrow> ub + (world \<times> BM_BufferPool \<times> BM_PageHandle)" where
  "pin_unpin w bm h pn =
     bindU (pinPage w bm h pn) (\<lambda>(rc, w1, bm1, h1).
     bindU (unpinPage bm1 h1) (\<lambda>(rc', bm2). Inr (w1, bm2, h1)))"

text \<open>
  Scenario E4: a pool of 3 frames under LRU on the file \<open>fname\<close>; pin and unpin pages
  1, 2, 3, pin and unpin page 1 again, then pin page 4.
\<close>

definition lru_scenario ::
  "world \<Rightarrow> BM_BufferPool \<Rightarrow> BM_PageHandle \<Rightarrow> string
     \<Rightarrow> ub + (world \<times> BM_BufferPool \<times> BM_PageHandle)" where
  "lru_scenario w bp0 h0 fname =
     (case initBufferPool w bp0 fname 3 RS_LRU of (rc, bm) \<Rightarrow>
        bindU (pin_unpin w bm h0 1) (\<lambda>(w1, bm1, h1).
        bindU (pin_unpin w1 bm1 h1 2) (\<lambda>(w2, bm2, h2).
        bindU (pin_unpin w2 bm2 h2 3) (\<lambda>(w3, bm3, h3).
        bindU (pin_unpin w3 bm3 h3 1) (\<lambda>(w4, bm4, h4).
        bindU (pinPage w4 bm4 h4 4) (\<lambda>(rc, w5, bm5, h5). Inr (w5, bm5, h5)))))))"

text \<open>A world holding one file of five zero pages, an unused pool structure and handle.\<close>

definition world0 :: world where
  "world0 = \<lparr>files = Map.empty(''t.bin'' \<mapsto> replicate 20480 0), heap = (\<lambda>a. None),
             next_addr = 0\<rparr>"

definition pool0 :: BM_BufferPool where
  "pool0 = \<lparr>pageFile = [], numPages = 0, strategy = RS_FIFO, mgmtData = [],
            numReadIO = 0, numWriteIO = 0, timer = 0\<rparr>"

definition handle0 :: BM_PageHandle where
  "handle0 = \<lparr>pageNum = 0, data = None, dirty = False, fixCounts = 0,
              strategyAttribute = None\<rparr>"

subsection \<open>Sequences of calls on a pool\<close>

text \<open>
  A client calls the pool's operations in any order, with any handle. A call that ends
  in undefined behaviour ends the run; a call that returns, with whatever return code,
  leaves a state.
\<close>

datatype bm_call =
    InitBufferPool string int ReplacementStrategy
  | PinPage BM_PageHandle int
  | UnpinPage BM_PageHandle
  | MarkDirty BM_PageHandle
  | ForcePage BM_PageHandle
  | ForceFlushPool
  | ShutdownBufferPool

fun bm_step :: "world \<Rightarrow> BM_BufferPool \<Rightarrow> bm_call \<Rightarrow> ub + (world \<times> BM_BufferPool)" where
  "bm_step w bm (InitBufferPool fname n s) =
     (case initBufferPool w bm fname n s of (rc, bm') \<Rightarrow> Inr (w, bm'))"
| "bm_step w bm (PinPage h pn) =
     bindU (pinPage w bm h pn) (\<lambda>(rc, w', bm', h'). Inr (w', bm'))"
| "bm_step w bm (UnpinPage h) = bindU (unpinPage bm h) (\<lambda>(rc, bm'). Inr (w, bm'))"
| "bm_step w bm (MarkDirty h) = bindU (markDirty bm h) (\<lambda>(rc, bm', h'). Inr (w, bm'))"
| "bm_step w bm (ForcePage h) =
     bindU (forcePage w bm h) (\<lambda>(rc, w', bm', h'). Inr (w', bm'))"
| "bm_step w bm ForceFlushPool =
     bindU (forceFlushPool w bm) (\<lambda>(rc, w', bm'). Inr (w', bm'))"
| "bm_step w bm ShutdownBufferPool =
     bindU (shutdownBufferPool w bm) (\<lambda>(rc, w', bm'). Inr (w', bm'))"

fun bm_run :: "world \<Rightarrow> BM_BufferPool \<Rightarrow> bm_call list \<Rightarrow> ub + (world \<times> BM_BufferPool)" where
  "bm_run w bm [] = Inr (w, bm)"
| "bm_run w bm (c # cs) = bindU (bm_step w bm c) (\<lambda>(w', bm'). bm_run w' bm' cs)"

text \<open>
  A call respects the pins when it is not an \<^verbatim>\<open>unpinPage\<close> of a page that some frame
  holds with fix count 0 or less; a run respects them when each of its calls does, in
  the state it is made in.
\<close>

fun call_ok :: "BM_BufferPool \<Rightarrow> bm_call \<Rightarrow> bool" where
  "call_ok bm (UnpinPage h) =
     list_all (\<lambda>f. pageNum f = pageNum h \<longrightarrow> 0 < fixCounts f) (mgmtData bm)"
| "call_ok bm c = True"

fun run_ok :: "world \<Rightarrow> BM_BufferPool \<Rightarrow> bm_call list \<Rightarrow> bool" where
  "run_ok w bm [] = True"
| "run_ok w bm (c # cs) =
     (call_ok bm c \<and>
      (case bm_step w bm c of Inl e \<Rightarrow> True | Inr (w', bm') \<Rightarrow> run_ok w' bm' cs))"

definition fix_counts_nonneg :: "BM_BufferPool \<Rightarrow> bool" where
  "fix_counts_nonneg bm = list_all (\<lambda>f. 0 \<le> fixCounts f) (mgmtData bm)"

subsection \<open>Example pools and call sequences\<close>

definition handle_for :: "int \<Rightarrow> BM_PageHandle" where
  "handle_for pn = handle0\<lparr>pageNum := pn\<rparr>"

definition pool_fifo1 :: BM_BufferPool where
  "pool_fifo1 = snd (initBufferPool world0 pool0 ''t.bin'' 1 RS_FIFO)"

definition pool_lru2 :: BM_BufferPool where
  "pool_lru2 = snd (initBufferPool world0 pool0 ''t.bin'' 2 RS_LRU)"

text \<open>Page 0 is pinned once and unpinned twice.\<close>

definition underflow_calls :: "bm_call list" where
  "underflow_calls = [PinPage handle0 0, UnpinPage (handle_for 0), UnpinPage (handle_for 0)]"

text \<open>Every unpin follows a pin of its page; page 1 is written back when page 3 evicts it.\<close>

definition balanced_calls :: "bm_call list" where
  "balanced_calls =
     [PinPage handle0 1, MarkDirty (handle_for 1), UnpinPage (handle_for 1),
      PinPage handle0 2, PinPage handle0 3, UnpinPage (handle_for 2),
      ForceFlushPool, ShutdownBufferPool]"

text \<open>The state after \<^verbatim>\<open>initBufferPool\<close> with one frame and one \<^verbatim>\<open>pinPage\<close> of page 0.\<close>

definition world_pinned1 :: world where
  "world_pinned1 = world0\<lparr>heap := (heap world0)(0 \<mapsto> replicate 4096 0), next_addr := 1\<rparr>"

definition pool_pinned1 :: BM_BufferPool where
  "pool_pinned1 =
     \<lparr>pageFile = ''t.bin'', numPages = 1, strategy = RS_FIFO,
      mgmtData = [\<lparr>pageNum = 0, data = Some 0, dirty = False, fixCounts = 1,
                   strategyAttribute = Some 0\<rparr>],
      numReadIO = 1, numWriteIO = 0, timer = 1\<rparr>"

section \<open>Record manager\<close>

subsection \<open>Pages seen through a handle\<close>

text \<open>Reads and writes at \<^verbatim>\<open>h->data + off\<close>, in the buffer the handle points to.\<close>

definition page_buf :: "world \<Rightarrow> BM_PageHandle \<Rightarrow> ub + byte list" where
  "page_buf w h =
     (case data h of
        None \<Rightarrow> Inl NullDeref
      | Some a \<Rightarrow> (case heap w a of None \<Rightarrow> Inl UseAfterFree | Some buf \<Rightarrow> Inr buf))"

definition page_read :: "world \<Rightarrow> BM_PageHandle \<Rightarrow> int \<Rightarrow> nat \<Rightarrow> ub + byte list" where
  "page_read w h off n = bindU (page_buf w h) (\<lambda>buf. memcpy_from buf off n)"

definition page_write :: "world \<Rightarrow> BM_PageHandle \<Rightarrow> int \<Rightarrow> byte list \<Rightarrow> ub + world" where
  "page_write w h off src =
     bindU (page_buf w h) (\<lambda>buf.
     bindU (memcpy_to buf off src) (\<lambda>buf'.
       Inr (w\<lparr>heap := (heap w)(the (data h) \<mapsto> buf')\<rparr>)))"

definition page_read_int :: "world \<Rightarrow> BM_PageHandle \<Rightarrow> int \<Rightarrow> ub + int" where
  "page_read_int w h off = bindU (page_read w h off 4) (\<lambda>bs. Inr (bytes_int bs))"

definition page_write_int :: "world \<Rightarrow> BM_PageHandle \<Rightarrow> int \<Rightarrow> int \<Rightarrow> ub + world" where
  "page_write_int w h off x = page_write w h off (int_bytes x)"

text \<open>
  \<^verbatim>\<open>MAKE_PAGE_HANDLE()\<close> allocates a handle and sets none of its fields; the model's
  fresh handle has a null \<open>data\<close> pointer, so using it before \<^verbatim>\<open>pinPage\<close> has filled it
  in is undefined behaviour here as in C.
\<close>

definition MAKE_PAGE_HANDLE :: BM_PageHandle where
  "MAKE_PAGE_HANDLE = \<lparr>pageNum = 0, data = None, dirty = False, fixCounts = 0,
                        strategyAttribute = None\<rparr>"

record RM_TableData =
  tbl_name :: string
  tbl_schema :: Schema
  tbl_bm :: BM_BufferPool
  tbl_fh :: SM_FileHandle

text \<open>C integer division truncates towards zero.\<close>

definition c_div :: "int \<Rightarrow> int \<Rightarrow> int" where
  "c_div a b = sgn a * sgn b * (\<bar>a\<bar> div \<bar>b\<bar>)"

subsection \<open>Schema text\<close>

definition byte_of_char :: "char \<Rightarrow> byte" where
  "byte_of_char c = of_char c"

definition bytes_of :: "string \<Rightarrow> byte list" where
  "bytes_of s = map byte_of_char s"

fun show_nat :: "nat \<Rightarrow> byte list" where
  "show_nat n =
     (if n < 10 then [word_of_nat (48 + n)]
      else show_nat (n div 10) @ [word_of_nat (48 + n mod 10)])"

definition show_int :: "int \<Rightarrow> byte list" where
  "show_int i = (if i < 0 then bytes_of ''-'' @ show_nat (nat (- i)) else show_nat (nat i))"

fun intercalate :: "'a list \<Rightarrow> 'a list list \<Rightarrow> 'a list" where
  "intercalate sep [] = []"
| "intercalate sep [x] = x"
| "intercalate sep (x # y # zs) = x @ sep @ intercalate sep (y # zs)"

text \<open>
  Modelled from the spec: \<^verbatim>\<open>serializeSchema\<close>, which \<^verbatim>\<open>createTable\<close> calls and whose
  source file is not among the sources. The spec gives its output as
  ``\<^verbatim>\<open>Schema with <n> attributes (name1: type1, name2: type2, ...) with keys (keyname1, keyname2, ...)\<close>,
  where \<^verbatim>\<open>type\<close> is \<^verbatim>\<open>INT\<close>, \<^verbatim>\<open>FLOAT\<close>, \<^verbatim>\<open>STRING[n]\<close>, or \<^verbatim>\<open>BOOL\<close>''.
\<close>

fun type_text :: "DataType \<Rightarrow> int \<Rightarrow> byte list" where
  "type_text DT_INT len = bytes_of ''INT''"
| "type_text DT_FLOAT len = bytes_of ''FLOAT''"
| "type_text DT_STRING len = bytes_of ''STRING['' @ show_int len @ bytes_of '']''"
| "type_text DT_BOOL len = bytes_of ''BOOL''"

definition attr_text :: "Attr \<Rightarrow> byte list" where
  "attr_text a = (case a of (nm, dt, len) \<Rightarrow> bytes_of nm @ bytes_of '': '' @ type_text dt len)"

definition serializeSchema :: "Schema \<Rightarrow> byte list" where
  "serializeSchema schema =
     bytes_of ''Schema with <'' @ show_int (numAttr schema) @ bytes_of ''> attributes (''
     @ intercalate (bytes_of '', '') (map attr_text (attrs schema))
     @ bytes_of '') with keys (''
     @ intercalate (bytes_of '', '')
         (map (\<lambda>k. bytes_of (fst (attrs schema ! nat k))) (keyAttrs schema))
     @ bytes_of '')''"

subsection \<open>Creating a table\<close>

definition metadataEntriesPerPage :: nat where
  "metadataEntriesPerPage = nat (PAGE_SIZE div (2 * 4))"

text \<open>The loop of \<^verbatim>\<open>addPageMetadataBlock\<close> that fills the block, entry by entry.\<close>

fun fill_metadata :: "int \<Rightarrow> byte list \<Rightarrow> nat list \<Rightarrow> ub + byte list" where
  "fill_metadata tot metadataBlock [] = Inr metadataBlock"
| "fill_metadata tot metadataBlock (i # rest) =
     (let currentPageNum =
            (if i = metadataEntriesPerPage - 1 then tot - 1
             else tot - int metadataEntriesPerPage + int i)
      in bindU (write_int metadataBlock (int i * 2 * 4) currentPageNum) (\<lambda>b1.
         bindU (write_int b1 (int i * 2 * 4 + 4) (- 1)) (\<lambda>b2.
           fill_metadata tot b2 rest)))"

definition addPageMetadataBlock ::
  "filesystem \<Rightarrow> SM_FileHandle \<Rightarrow> ub + (RC \<times> filesystem \<times> SM_FileHandle)" where
  "addPageMetadataBlock fs fileHandle =
     bindU (appendEmptyBlock fs fileHandle) (\<lambda>(result, fs1, fh1).
       if result \<noteq> RC_OK then Inr (fst (closePageFile fh1), fs1, snd (closePageFile fh1))
       else
         bindU (fill_metadata (totalNumPages fh1) (replicate (nat PAGE_SIZE) 0)
                  [0..<metadataEntriesPerPage]) (\<lambda>metadataBlock.
           writeBlock (totalNumPages fh1 - 1) fs1 fh1 metadataBlock))"

text \<open>
  \<^verbatim>\<open>writeSchemaToFile(fh, schema, totalSize)\<close>: \<open>s\<close> holds the characters from
  \<^verbatim>\<open>schema\<close> to the end of the string. It writes its blocks from page 0 on.
\<close>

fun writeSchemaToFile_loop ::
  "filesystem \<Rightarrow> SM_FileHandle \<Rightarrow> byte list \<Rightarrow> int \<Rightarrow> nat list
     \<Rightarrow> ub + (RC \<times> filesystem \<times> SM_FileHandle)" where
  "writeSchemaToFile_loop fs fh s totalSize [] = Inr (RC_OK, fs, fh)"
| "writeSchemaToFile_loop fs fh s totalSize (i # rest) =
     (if length s < i * nat PAGE_SIZE then Inl OutOfBounds
      else
        let chunk = drop (i * nat PAGE_SIZE) s;
            bytesToWrite = (if int i < totalSize - 1 then nat PAGE_SIZE else length chunk)
        in if length chunk < bytesToWrite then Inl OutOfBounds
           else bindU (memcpy_to (replicate (nat PAGE_SIZE) 0) 0 (take bytesToWrite chunk))
             (\<lambda>buffer.
                bindU (writeBlock (int i) fs fh buffer) (\<lambda>(status, fs1, fh1).
                  if status \<noteq> RC_OK
                  then Inr (RC_WRITE_FAILED, fs1, snd (closePageFile fh1))
                  else writeSchemaToFile_loop fs1 fh1 s totalSize rest)))"

definition writeSchemaToFile ::
  "filesystem \<Rightarrow> SM_FileHandle \<Rightarrow> byte list \<Rightarrow> int
     \<Rightarrow> ub + (RC \<times> filesystem \<times> SM_FileHandle)" where
  "writeSchemaToFile fs fh s totalSize = writeSchemaToFile_loop fs fh s totalSize [0..<nat totalSize]"

definition createTable ::
  "(string \<Rightarrow> create_io) \<Rightarrow> filesystem \<Rightarrow> string \<Rightarrow> Schema \<Rightarrow> ub + (RC \<times> filesystem)" where
  "createTable io fs name schema =
     (case createPageFile io fs name of (status, fs1) \<Rightarrow>
      if status \<noteq> RC_OK then Inr (status, fs1)
      else case openPageFile fs1 name \<lparr>fileName = [], totalNumPages = 0, curPagePos = 0\<rparr> of
        (status, fh) \<Rightarrow>
      if status \<noteq> RC_OK then Inr (status, fs1)
      else
        let buffer = replicate (nat PAGE_SIZE) 0;
            schemaSerialized = serializeSchema schema;
            fileMetadataSize = (int (length schemaSerialized) + 4 * 4 - 1) div PAGE_SIZE + 1
        in bindU (getRecordSize schema) (\<lambda>recordSize.
           bindU (write_int buffer 0 fileMetadataSize) (\<lambda>b0.
           bindU (write_int b0 4 (c_div recordSize 256)) (\<lambda>b1.
           bindU (write_int b1 (2 * 4) 256) (\<lambda>b2.
           bindU (write_int b2 (3 * 4) 0) (\<lambda>b3.
           bindU (memcpy_to b3 (4 * 4) schemaSerialized) (\<lambda>b4.
           bindU (writeBlock 0 fs1 fh b4) (\<lambda>(status, fs2, fh2).
             if status \<noteq> RC_OK then Inr (RC_WRITE_FAILED, fs2)
             else
               bindU (if fileMetadataSize > 1
                      then writeSchemaToFile fs2 fh2
                             (drop (nat (PAGE_SIZE - 4 * 4)) schemaSerialized)
                             (fileMetadataSize - 1)
                      else Inr (RC_OK, fs2, fh2)) (\<lambda>(status, fs3, fh3).
                 if status \<noteq> RC_OK then Inr (status, fs3)
                 else bindU (addPageMetadataBlock fs3 fh3) (\<lambda>(status, fs4, fh4).
                   if status \<noteq> RC_OK then Inr (status, fs4)
                   else Inr (fst (closePageFile fh4), fs4)))))))))))"

text \<open>Page \<open>p\<close> of a file, as far as the file reaches.\<close>

definition file_page :: "byte list \<Rightarrow> nat \<Rightarrow> byte list" where
  "file_page file p = take (nat PAGE_SIZE) (drop (p * nat PAGE_SIZE) file)"

declare show_nat.simps [simp del]

text \<open>
  The page 0 that \<^verbatim>\<open>createTable\<close> builds when the schema text fits into it: the four
  header integers, the schema text, zeros.
\<close>

definition header_page :: "Schema \<Rightarrow> byte list" where
  "header_page schema =
     int_bytes 1 @ int_bytes (c_div (sizeSum (attrs schema)) 256) @ int_bytes 256
     @ int_bytes 0
     @ serializeSchema schema @ replicate (4080 - length (serializeSchema schema)) 0"

subsection \<open>Inserting, deleting and reading records\<close>

definition getFileMetaDataSize ::
  "world \<Rightarrow> BM_BufferPool \<Rightarrow> ub + (int \<times> world \<times> BM_BufferPool)" where
  "getFileMetaDataSize w bufferPool =
     bindU (pinPage w bufferPool MAKE_PAGE_HANDLE 0) (\<lambda>(rc, w1, bm1, pageHandle).
       if rc \<noteq> RC_OK then Inr (- 1, w1, bm1)
       else bindU (page_read_int w1 pageHandle 0) (\<lambda>metaSize.
            bindU (unpinPage bm1 pageHandle) (\<lambda>(rc', bm2).
              if rc' \<noteq> RC_OK then Inr (- 1, w1, bm2) else Inr (metaSize, w1, bm2))))"

text \<open>
  The first loop of \<^verbatim>\<open>insertRecord\<close>: it pins a page-metadata page, reads the integer
  in the last four bytes of the page and goes on to the page of that number until it
  reads \<open>-1\<close>. On a chain that leads back into itself the loop does not end.
\<close>

partial_function (option) walk_chain ::
  "world \<Rightarrow> BM_BufferPool \<Rightarrow> BM_PageHandle \<Rightarrow> int
     \<Rightarrow> (ub + (world \<times> BM_BufferPool \<times> BM_PageHandle)) option" where
  "walk_chain w bm h p_meta_index =
     (case pinPage w bm h p_meta_index of
        Inl e \<Rightarrow> Some (Inl e)
      | Inr (rc, w1, bm1, h1) \<Rightarrow>
          (case page_read_int w1 h1 (PAGE_SIZE - 4) of
             Inl e \<Rightarrow> Some (Inl e)
           | Inr nxt \<Rightarrow>
               if nxt \<noteq> - 1
               then (case unpinPage bm1 h1 of
                       Inl e \<Rightarrow> Some (Inl e)
                     | Inr (rc', bm2) \<Rightarrow> walk_chain w1 bm2 h1 nxt)
               else Some (Inr (w1, bm1, h1))))"

declare walk_chain.simps [code]

text \<open>
  The second loop: the first entry whose count is not \<^verbatim>\<open>PAGE_SIZE / 256\<close>, with the
  offset just behind it.
\<close>

fun scan_entries :: "byte list \<Rightarrow> nat list \<Rightarrow> ub + (int \<times> int)" where
  "scan_entries buf [] = Inl OutOfBounds"
| "scan_entries buf (i # rest) =
     bindU (read_int buf (int i * (2 * 4) + 4)) (\<lambda>r_current_num.
       if r_current_num \<noteq> PAGE_SIZE div 256 then Inr (r_current_num, int i * (2 * 4) + 2 * 4)
       else scan_entries buf rest)"

text \<open>The block of \<^verbatim>\<open>insertRecord\<close> that links a new page-metadata page into the chain.\<close>

definition link_metadata ::
  "world \<Rightarrow> RM_TableData \<Rightarrow> BM_PageHandle
     \<Rightarrow> ub + (world \<times> RM_TableData \<times> BM_PageHandle \<times> int)" where
  "link_metadata w rel h =
     bindU (page_write_int w h (PAGE_SIZE - 4) (totalNumPages (tbl_fh rel))) (\<lambda>w1.
     bindU (addPageMetadataBlock (files w1) (tbl_fh rel)) (\<lambda>(rc, fs2, fh2).
     bindU (markDirty (tbl_bm rel) h) (\<lambda>(rc, bm3, h3).
     bindU (unpinPage bm3 h3) (\<lambda>(rc, bm4).
     bindU (c_int (totalNumPages fh2 - 1)) (\<lambda>p.
     bindU (pinPage (w1\<lparr>files := fs2\<rparr>) bm4 h3 p) (\<lambda>(rc, w5, bm5, h5).
       Inr (w5, rel\<lparr>tbl_bm := bm5, tbl_fh := fh2\<rparr>, h5, 2 * 4)))))))"

text \<open>The block that registers a new data page in the entry before \<open>offset\<close>.\<close>

definition new_data_page ::
  "world \<Rightarrow> RM_TableData \<Rightarrow> BM_PageHandle \<Rightarrow> int
     \<Rightarrow> ub + (world \<times> RM_TableData \<times> BM_PageHandle \<times> int \<times> int)" where
  "new_data_page w rel h offset =
     bindU (if offset = PAGE_SIZE then link_metadata w rel h else Inr (w, rel, h, offset))
       (\<lambda>(w1, rel1, h1, offset1).
     bindU (page_write_int w1 h1 (offset1 - 2 * 4) (totalNumPages (tbl_fh rel1))) (\<lambda>w2.
     bindU (appendEmptyBlock (files w2) (tbl_fh rel1)) (\<lambda>(rc, fs3, fh3).
       Inr (w2\<lparr>files := fs3\<rparr>, rel1\<lparr>tbl_fh := fh3\<rparr>, h1, offset1, 0))))"

text \<open>The rest of \<^verbatim>\<open>insertRecord\<close>, from the second loop on, with the last metadata page pinned.\<close>

definition insertRecord_place ::
  "world \<Rightarrow> RM_TableData \<Rightarrow> BM_PageHandle \<Rightarrow> Record \<Rightarrow> int
     \<Rightarrow> ub + (RC \<times> world \<times> RM_TableData \<times> Record)" where
  "insertRecord_place w rel h record r_size =
     (let r_slotnum = (r_size + 1) div 256 + 1
      in
     bindU (page_buf w h) (\<lambda>buf.
     bindU (scan_entries buf [0..<length buf div 8 + 1]) (\<lambda>(r_current_num, offset).
     bindU (if r_current_num = - 1 then new_data_page w rel h offset
            else Inr (w, rel, h, offset, r_current_num)) (\<lambda>(w3, rel3, h3, offset3, r_cur).
     bindU (page_read_int w3 h3 (offset3 - 2 * 4)) (\<lambda>id_page.
     bindU (c_int (r_cur * r_slotnum)) (\<lambda>id_slot.
     bindU (c_int (r_cur + 1)) (\<lambda>r_cur1.
     bindU (page_write_int w3 h3 (offset3 - 4) r_cur1) (\<lambda>w4.
     bindU (markDirty (tbl_bm rel3) h3) (\<lambda>(rc, bm4, h4).
     bindU (unpinPage bm4 h4) (\<lambda>(rc, bm5).
     bindU (pinPage w4 bm5 h4 id_page) (\<lambda>(rc, w6, bm6, h6).
     bindU (c_int (256 * id_slot)) (\<lambda>pos.
     bindU (page_write w6 h6 pos [1]) (\<lambda>w7.
     bindU (if r_size < 0 then Inl OutOfBounds
            else memcpy_from (data_r record) 0 (nat r_size)) (\<lambda>bytes.
     bindU (page_write w7 h6 (pos + 1) bytes) (\<lambda>w8.
     bindU (markDirty bm6 h6) (\<lambda>(rc, bm7, h7).
     bindU (unpinPage bm7 h7) (\<lambda>(rc, bm8).
     bindU (pinPage w8 bm8 h7 0) (\<lambda>(rc, w9, bm9, h9).
     bindU (page_read_int w9 h9 (3 * 4)) (\<lambda>numTuples.
     bindU (c_int (numTuples + 1)) (\<lambda>numTuples1.
     bindU (page_write_int w9 h9 (3 * 4) numTuples1) (\<lambda>w10.
     bindU (markDirty bm9 h9) (\<lambda>(rc, bm10, h10).
     bindU (unpinPage bm10 h10) (\<lambda>(rc, bm11).
       Inr (RC_OK, w10, rel3\<lparr>tbl_bm := bm11\<rparr>,
            record\<lparr>id_r := \<lparr>page = id_page, slot = id_slot\<rparr>\<rparr>))))))))))))))))))))))))"

definition insertRecord ::
  "world \<Rightarrow> RM_TableData \<Rightarrow> Record
     \<Rightarrow> (ub + (RC \<times> world \<times> RM_TableData \<times> Record)) option" where
  "insertRecord w rel record =
     (case getRecordSize (tbl_schema rel) of
        Inl e \<Rightarrow> Some (Inl e)
      | Inr r_size \<Rightarrow>
     (case getFileMetaDataSize w (tbl_bm rel) of
        Inl e \<Rightarrow> Some (Inl e)
      | Inr (p_meta_index, w0, bm0) \<Rightarrow>
          (case walk_chain w0 bm0 MAKE_PAGE_HANDLE p_meta_index of
             None \<Rightarrow> None
           | Some (Inl e) \<Rightarrow> Some (Inl e)
           | Some (Inr (w1, bm1, h1)) \<Rightarrow>
               Some (insertRecord_place w1 (rel\<lparr>tbl_bm := bm1\<rparr>) h1 record r_size))))"

definition deleteRecord ::
  "world \<Rightarrow> RM_TableData \<Rightarrow> RID \<Rightarrow> ub + (RC \<times> world \<times> RM_TableData)" where
  "deleteRecord w table rid =
     bindU (getRecordSize (tbl_schema table)) (\<lambda>recordSize.
      if recordSize < 0 then Inl OutOfBounds
      else
        let deletedRecord = replicate (nat recordSize + 1) 0
        in bindU (pinPage w (tbl_bm table) MAKE_PAGE_HANDLE (page rid)) (\<lambda>(rc, w1, bm1, h1).
           bindU (c_int (PAGE_SIZE * slot rid)) (\<lambda>pos.
           bindU (page_write w1 h1 pos deletedRecord) (\<lambda>w2.
           bindU (markDirty bm1 h1) (\<lambda>(rc, bm2, h2).
           bindU (unpinPage bm2 h2) (\<lambda>(rc, bm3).
           bindU (pinPage w2 bm3 h2 0) (\<lambda>(rc, w4, bm4, h4).
           bindU (page_read_int w4 h4 (3 * 4)) (\<lambda>numTuples.
           bindU (c_int (numTuples - 1)) (\<lambda>numTuples1.
           bindU (page_write_int w4 h4 (3 * 4) numTuples1) (\<lambda>w5.
           bindU (markDirty bm4 h4) (\<lambda>(rc, bm5, h5).
           bindU (unpinPage bm5 h5) (\<lambda>(rc, bm6).
             Inr (RC_OK, w5, table\<lparr>tbl_bm := bm6\<rparr>)))))))))))))"

definition RC_INSUFFICIENT_MEMORY :: RC where "RC_INSUFFICIENT_MEMORY = 10"

text \<open>
  \<^verbatim>\<open>getRecord\<close>. A negative record size makes \<^verbatim>\<open>malloc\<close> fail, which the source
  answers with \<^verbatim>\<open>RC_INSUFFICIENT_MEMORY\<close>.
\<close>

definition getRecord ::
  "world \<Rightarrow> RM_TableData \<Rightarrow> RID \<Rightarrow> Record
     \<Rightarrow> ub + (RC \<times> world \<times> RM_TableData \<times> Record)" where
  "getRecord w table recordID outputRecord =
     bindU (getRecordSize (tbl_schema table)) (\<lambda>recordSize.
      let out1 = outputRecord\<lparr>id_r := recordID\<rparr>
      in bindU (pinPage w (tbl_bm table) MAKE_PAGE_HANDLE (page recordID))
           (\<lambda>(rc, w1, bm1, pageHandle).
         bindU (c_int (256 * slot recordID)) (\<lambda>pos.
         bindU (page_read w1 pageHandle pos 1) (\<lambda>flag.
           if hd flag = 0
           then Inr (RC_RM_RECORD_NOT_EXIST, w1, table\<lparr>tbl_bm := bm1\<rparr>, out1)
           else if recordSize < 0
           then bindU (unpinPage bm1 pageHandle) (\<lambda>(rc', bm2).
                  Inr (RC_INSUFFICIENT_MEMORY, w1, table\<lparr>tbl_bm := bm2\<rparr>, out1))
           else bindU (page_read w1 pageHandle (pos + 1) (nat recordSize)) (\<lambda>bytes.
                bindU (unpinPage bm1 pageHandle) (\<lambda>(rc', bm2).
                  Inr (RC_OK, w1, table\<lparr>tbl_bm := bm2\<rparr>, out1\<lparr>data_r := bytes\<rparr>)))))))"

subsection \<open>An example table\<close>

text \<open>
  A table file of five pages whose page 2 is a data page holding one live record, in
  slot 1 (byte offset 256); slot 0 of that page is not live. The table is open with a
  pool of 10 frames under LRU, as \<^verbatim>\<open>openTable\<close> sets it up.
\<close>

definition world_tbl :: world where
  "world_tbl =
     \<lparr>files = Map.empty(''t.bin'' \<mapsto>
                replicate 8448 0 @ [1, 2, 0, 0, 0, 101, 102, 103, 104] @ replicate 12023 0),
      heap = (\<lambda>a. None), next_addr = 0\<rparr>"

definition table_ab :: RM_TableData where
  "table_ab =
     \<lparr>tbl_name = ''t.bin'', tbl_schema = schema_ab,
      tbl_bm = snd (initBufferPool world_tbl pool0 ''t.bin'' 10 RS_LRU),
      tbl_fh = \<lparr>fileName = ''t.bin'', totalNumPages = 5, curPagePos = 0\<rparr>\<rparr>"

definition rid_live :: RID where
  "rid_live = \<lparr>page = 2, slot = 1\<rparr>"

definition rid_dead :: RID where
  "rid_dead = \<lparr>page = 2, slot = 0\<rparr>"

text \<open>The result of pinning page 2 of the example table: return code, world, pool, handle.\<close>

definition pinned_tbl :: "RC \<times> world \<times> BM_BufferPool \<times> BM_PageHandle" where
  "pinned_tbl = projr (pinPage world_tbl (tbl_bm table_ab) MAKE_PAGE_HANDLE 2)"

definition got_dead :: "RC \<times> world \<times> RM_TableData \<times> Record" where
  "got_dead = projr (getRecord world_tbl table_ab rid_dead record_ab)"

subsection \<open>Opening a table\<close>

text \<open>
  The schema text is read in place, in the page buffer \<open>buf\<close>; a cursor is an index into
  it. \<^verbatim>\<open>strchr\<close> looks for a character up to the terminating zero byte; reading on
  past the end of the buffer is undefined behaviour.
\<close>

fun strchr_l :: "byte list \<Rightarrow> byte \<Rightarrow> ub + nat option" where
  "strchr_l [] c = Inl OutOfBounds"
| "strchr_l (x # xs) c =
     (if x = c then Inr (Some 0)
      else if x = 0 then Inr None
      else bindU (strchr_l xs c) (\<lambda>r. Inr (map_option Suc r)))"

definition strchr :: "byte list \<Rightarrow> nat \<Rightarrow> byte \<Rightarrow> ub + nat option" where
  "strchr buf cursor c =
     bindU (strchr_l (drop cursor buf) c) (\<lambda>r. Inr (map_option (\<lambda>k. cursor + k) r))"

text \<open>\<^verbatim>\<open>while (*(cursor + i) != c) i++\<close>: the number of bytes before the first \<open>c\<close>.\<close>

fun scan_until :: "byte list \<Rightarrow> byte \<Rightarrow> ub + nat" where
  "scan_until [] c = Inl OutOfBounds"
| "scan_until (x # xs) c =
     (if x = c then Inr 0 else bindU (scan_until xs c) (\<lambda>n. Inr (Suc n)))"

text \<open>
  The loops that copy the characters before \<open>c\<close> into \<^verbatim>\<open>temp\<close>, a zero-filled buffer
  of 40 bytes: the result is the whole of \<^verbatim>\<open>temp\<close>.
\<close>

definition copy_until :: "byte list \<Rightarrow> nat \<Rightarrow> byte \<Rightarrow> ub + byte list" where
  "copy_until buf cursor c =
     bindU (scan_until (drop cursor buf) c) (\<lambda>n.
       if 40 < n then Inl OutOfBounds
       else Inr (take n (drop cursor buf) @ replicate (40 - n) 0))"

text \<open>\<^verbatim>\<open>atoi\<close> on a buffer: white space, a sign, digits; it stops at the first other byte.\<close>

fun atoi_digits :: "byte list \<Rightarrow> int \<Rightarrow> ub + int" where
  "atoi_digits [] acc = Inl OutOfBounds"
| "atoi_digits (c # cs) acc =
     (if 48 \<le> c \<and> c \<le> 57 then atoi_digits cs (10 * acc + (uint c - 48)) else Inr acc)"

fun atoi_skip :: "byte list \<Rightarrow> ub + int" where
  "atoi_skip [] = Inl OutOfBounds"
| "atoi_skip (c # cs) =
     (if c = 32 \<or> (9 \<le> c \<and> c \<le> 13) then atoi_skip cs
      else if c = 45 then bindU (atoi_digits cs 0) (\<lambda>v. Inr (- v))
      else if c = 43 then atoi_digits cs 0
      else atoi_digits (c # cs) 0)"

definition atoi :: "byte list \<Rightarrow> ub + int" where
  "atoi temp = bindU (atoi_skip temp) c_int"

definition byte_at :: "byte list \<Rightarrow> nat \<Rightarrow> ub + byte" where
  "byte_at buf i = (if i < length buf then Inr (buf ! i) else Inl OutOfBounds)"

definition char_of_byte :: "byte \<Rightarrow> char" where
  "char_of_byte b = char_of (unat b)"

text \<open>The data type and length of the attribute whose type name starts at \<open>pos\<close>.\<close>

definition parse_type :: "byte list \<Rightarrow> nat \<Rightarrow> ub + (DataType \<times> int) option" where
  "parse_type buf pos =
     bindU (byte_at buf pos) (\<lambda>t.
       if t = byte_of_char CHR ''I'' then Inr (Some (DT_INT, 0))
       else if t = byte_of_char CHR ''F'' then Inr (Some (DT_FLOAT, 0))
       else if t = byte_of_char CHR ''S''
       then bindU (copy_until buf (pos + 7) (byte_of_char CHR '']'')) (\<lambda>temp.
            bindU (atoi temp) (\<lambda>len. Inr (Some (DT_STRING, len))))
       else if t = byte_of_char CHR ''B'' then Inr (Some (DT_BOOL, 0))
       else Inr None)"

text \<open>
  The attribute loop, with \<open>n\<close> attributes still to read: the attributes read and the
  cursor at the end, or the return code of an early return.
\<close>

fun parse_attrs :: "byte list \<Rightarrow> nat \<Rightarrow> nat \<Rightarrow> ub + (RC + (Attr list \<times> nat))" where
  "parse_attrs buf cursor 0 = Inr (Inr ([], cursor))"
| "parse_attrs buf cursor (Suc n) =
     bindU (scan_until (drop cursor buf) (byte_of_char CHR '':'')) (\<lambda>j.
     bindU (parse_type buf (cursor + j + 2)) (\<lambda>ty.
       case ty of
         None \<Rightarrow> Inr (Inl RC_RM_UNKOWN_DATATYPE)
       | Some (dt, len) \<Rightarrow>
           let a = (map char_of_byte (take j (drop cursor buf)), dt, len)
           in if n = 0 then Inr (Inr ([a], cursor))
              else bindU (strchr buf cursor (byte_of_char CHR '','')) (\<lambda>p.
                case p of
                  None \<Rightarrow> Inr (Inl RC_INVALID_SCHEMA)
                | Some q \<Rightarrow>
                    bindU (parse_attrs buf (q + 2) n) (\<lambda>rest.
                      case rest of
                        Inl rc \<Rightarrow> Inr (Inl rc)
                      | Inr (as, c') \<Rightarrow> Inr (Inr (a # as, c'))))))"

text \<open>From the start of the schema text to the end of the attribute loop.\<close>

definition parse_attributes :: "byte list \<Rightarrow> ub + (RC + (Attr list \<times> nat))" where
  "parse_attributes buf =
     bindU (strchr buf (4 * 4) (byte_of_char CHR ''<'')) (\<lambda>p.
       case p of
         None \<Rightarrow> Inr (Inl RC_INVALID_SCHEMA)
       | Some lt \<Rightarrow>
           bindU (copy_until buf (lt + 1) (byte_of_char CHR ''>'')) (\<lambda>temp.
           bindU (atoi temp) (\<lambda>attributeCount.
           bindU (strchr buf (lt + 1) (byte_of_char CHR ''('')) (\<lambda>p'.
             case p' of
               None \<Rightarrow> Inr (Inl RC_INVALID_SCHEMA)
             | Some lp \<Rightarrow> parse_attrs buf (lp + 1) (nat attributeCount)))))"

text \<open>A C \<^verbatim>\<open>int\<close> incremented the way the hardware does it, wrapping around.\<close>

definition wrap_int :: "int \<Rightarrow> int" where
  "wrap_int x = (x + 2147483648) mod 4294967296 - 2147483648"

text \<open>
  The loop \<^verbatim>\<open>while (strchr(cursor, ',') != NULL) keyCount++;\<close> of lines 273 to 276.
  Its body changes neither the cursor nor the text.
\<close>

partial_function (option) count_keys :: "byte list \<Rightarrow> nat \<Rightarrow> int \<Rightarrow> (ub + int) option" where
  "count_keys buf cursor keyCount =
     (case strchr buf cursor (byte_of_char CHR '','') of
        Inl e \<Rightarrow> Some (Inl e)
      | Inr None \<Rightarrow> Some (Inr keyCount)
      | Inr (Some q) \<Rightarrow> count_keys buf cursor (wrap_int (keyCount + 1)))"

declare count_keys.simps [code]

text \<open>
  \<^verbatim>\<open>strcmp(temp, attributeNames[k]) == 0\<close>. The name was copied without a terminating
  zero byte, so the comparison reads past its end unless the two differ earlier.
\<close>

fun strcmp_name :: "byte list \<Rightarrow> byte list \<Rightarrow> ub + bool" where
  "strcmp_name temp [] = Inl OutOfBounds"
| "strcmp_name [] (y # ys) = Inr False"
| "strcmp_name (x # xs) (y # ys) = (if x = y then strcmp_name xs ys else Inr False)"

fun find_key :: "byte list \<Rightarrow> byte list list \<Rightarrow> int \<Rightarrow> ub + int" where
  "find_key temp [] k = Inr 0"
| "find_key temp (nm # nms) k =
     bindU (strcmp_name temp nm) (\<lambda>eq. if eq then Inr k else find_key temp nms (k + 1))"

text \<open>The loop over the \<open>keyCount\<close> key names, with \<open>n\<close> of them still to resolve.\<close>

fun resolve_keys :: "byte list \<Rightarrow> nat \<Rightarrow> byte list list \<Rightarrow> nat \<Rightarrow> ub + int list" where
  "resolve_keys buf cursor names 0 = Inr []"
| "resolve_keys buf cursor names (Suc n) =
     bindU (strchr buf cursor (byte_of_char CHR '','')) (\<lambda>d1.
     bindU (case d1 of Some d \<Rightarrow> Inr (Some d)
            | None \<Rightarrow> strchr buf cursor (byte_of_char CHR '')'')) (\<lambda>d2.
       case d2 of
         None \<Rightarrow> Inl NullDeref
       | Some delimiter \<Rightarrow>
           bindU (find_key (take (delimiter - cursor) (drop cursor buf)) names 0) (\<lambda>k.
           bindU (byte_at buf (delimiter + 1)) (\<lambda>c.
           bindU (resolve_keys buf
                    (if c = byte_of_char CHR '' '' then delimiter + 2 else delimiter + 1)
                    names n) (\<lambda>rest.
             Inr (k # rest))))))"

definition parse_schema :: "byte list \<Rightarrow> (ub + (RC + Schema)) option" where
  "parse_schema buf =
     (case parse_attributes buf of
        Inl e \<Rightarrow> Some (Inl e)
      | Inr (Inl rc) \<Rightarrow> Some (Inr (Inl rc))
      | Inr (Inr (as, cursor)) \<Rightarrow>
          (case strchr buf cursor (byte_of_char CHR ''('') of
             Inl e \<Rightarrow> Some (Inl e)
           | Inr None \<Rightarrow> Some (Inr (Inl RC_INVALID_SCHEMA))
           | Inr (Some lp) \<Rightarrow>
               (case count_keys buf (lp + 1) 0 of
                  None \<Rightarrow> None
                | Some (Inl e) \<Rightarrow> Some (Inl e)
                | Some (Inr keyCount) \<Rightarrow>
                    (case resolve_keys buf (lp + 1) (map (\<lambda>a. bytes_of (fst a)) as)
                            (nat keyCount) of
                       Inl e \<Rightarrow> Some (Inl e)
                     | Inr keys \<Rightarrow> Some (Inr (Inr \<lparr>attrs = as, keyAttrs = keys\<rparr>))))))"

text \<open>The loop of \<^verbatim>\<open>openTable\<close> that pins and unpins the header pages in turn.\<close>

fun read_meta_pages ::
  "world \<Rightarrow> BM_BufferPool \<Rightarrow> BM_PageHandle \<Rightarrow> nat list
     \<Rightarrow> ub + (RC \<times> world \<times> BM_BufferPool \<times> BM_PageHandle)" where
  "read_meta_pages w bm h [] = Inr (RC_OK, w, bm, h)"
| "read_meta_pages w bm h (i # rest) =
     bindU (pinPage w bm h (int i)) (\<lambda>(returnCode, w1, bm1, h1).
       if returnCode \<noteq> RC_OK then Inr (returnCode, w1, bm1, h1)
       else bindU (unpinPage bm1 h1) (\<lambda>(returnCode', bm2).
              if returnCode' \<noteq> RC_OK then Inr (returnCode', w1, bm2, h1)
              else read_meta_pages w1 bm2 h1 rest))"

definition openTable ::
  "world \<Rightarrow> RM_TableData \<Rightarrow> string \<Rightarrow> (ub + (RC \<times> world \<times> RM_TableData)) option" where
  "openTable w tableData tableName =
     (case openPageFile (files w) tableName \<lparr>fileName = [], totalNumPages = 0, curPagePos = 0\<rparr>
      of (returnCode, fileHandler) \<Rightarrow>
      if returnCode \<noteq> RC_OK then Some (Inr (returnCode, w, tableData))
      else case initBufferPool w pool0 tableName 10 RS_LRU of (returnCode, bufferPool) \<Rightarrow>
      if returnCode \<noteq> RC_OK then Some (Inr (returnCode, w, tableData))
      else case getFileMetaDataSize w bufferPool of
        Inl e \<Rightarrow> Some (Inl e)
      | Inr (metadataSize, w1, bm1) \<Rightarrow>
          (case read_meta_pages w1 bm1 MAKE_PAGE_HANDLE [0..<nat metadataSize] of
             Inl e \<Rightarrow> Some (Inl e)
           | Inr (rc, w2, bm2, pageHandler) \<Rightarrow>
               if rc \<noteq> RC_OK then Some (Inr (rc, w2, tableData))
               else (case page_buf w2 pageHandler of
                       Inl e \<Rightarrow> Some (Inl e)
                     | Inr buf \<Rightarrow>
                         (case parse_schema buf of
                            None \<Rightarrow> None
                          | Some (Inl e) \<Rightarrow> Some (Inl e)
                          | Some (Inr (Inl rc')) \<Rightarrow> Some (Inr (rc', w2, tableData))
                          | Some (Inr (Inr schema)) \<Rightarrow>
                              Some (Inr (RC_OK, w2,
                                         \<lparr>tbl_name = tableName, tbl_schema = schema,
                                          tbl_bm = bm2, tbl_fh = fileHandler\<rparr>))))))"

text \<open>The schema \<open>(a: INT, b: STRING[4])\<close> with the two keys \<open>a\<close> and \<open>b\<close>.\<close>

definition schema_2keys :: Schema where
  "schema_2keys = \<lparr>attrs = [(''a'', DT_INT, 0), (''b'', DT_STRING, 4)], keyAttrs = [0, 1]\<rparr>"

definition table0 :: RM_TableData where
  "table0 = \<lparr>tbl_name = [], tbl_schema = \<lparr>attrs = [], keyAttrs = []\<rparr>, tbl_bm = pool0,
            tbl_fh = \<lparr>fileName = [], totalNumPages = 0, curPagePos = 0\<rparr>\<rparr>"

text \<open>The world after \<^verbatim>\<open>createTable\<close> of table \<open>r\<close> with that schema, on an empty disk.\<close>

definition world_2keys :: world where
  "world_2keys =
     \<lparr>files = snd (projr (createTable (\<lambda>n. IoOk) Map.empty ''r'' schema_2keys)),
      heap = (\<lambda>a. None), next_addr = 0\<rparr>"


text \<open>
  A file of three pages in which page 1 ends with the integer 2 and page 2 with \<open>-1\<close>,
  and a pool of three frames on it.
\<close>

definition world_chain :: world where
  "world_chain =
     \<lparr>files = Map.empty(''t.bin'' \<mapsto>
                replicate 8188 0 @ [2, 0, 0, 0] @ replicate 4092 0 @ [255, 255, 255, 255]),
      heap = (\<lambda>a. None), next_addr = 0\<rparr>"

definition pool_chain :: BM_BufferPool where
  "pool_chain = snd (initBufferPool world_chain pool0 ''t.bin'' 3 RS_LRU)"

text \<open>
  The handle of the page pinned in \<open>pool_pinned1\<close>, and a table of five pages on that
  pool.
\<close>

definition handle_pinned1 :: BM_PageHandle where
  "handle_pinned1 = \<lparr>pageNum = 0, data = Some 0, dirty = False, fixCounts = 1,
                      strategyAttribute = Some 0\<rparr>"

definition table_pinned1 :: RM_TableData where
  "table_pinned1 =
     \<lparr>tbl_name = ''t.bin'', tbl_schema = schema_ab, tbl_bm = pool_pinned1,
      tbl_fh = \<lparr>fileName = ''t.bin'', totalNumPages = 5, curPagePos = 0\<rparr>\<rparr>"

subsection \<open>Where a page is kept\<close>

text \<open>
  Page \<open>pn\<close> of the file \<open>name\<close> holds the first page of bytes of \<open>b\<close>. A frame on buffer
  \<open>a\<close> is dirty and holds page \<open>pn\<close>; a dirty frame has a page number that can be written
  back, and on page \<open>pn\<close> it is a frame on buffer \<open>a\<close>.
\<close>

definition page_on_disk :: "world \<Rightarrow> string \<Rightarrow> int \<Rightarrow> byte list \<Rightarrow> bool" where
  "page_on_disk w name pn b =
     (case files w name of
        None \<Rightarrow> False
      | Some file \<Rightarrow> 4096 \<le> length b \<and> file_page file (nat pn) = take 4096 b)"

definition on_buffer_dirty :: "nat \<Rightarrow> int \<Rightarrow> BM_PageHandle \<Rightarrow> bool" where
  "on_buffer_dirty a pn f = (data f = Some a \<longrightarrow> dirty f \<and> pageNum f = pn)"

definition dirty_frame_ok :: "nat \<Rightarrow> int \<Rightarrow> BM_PageHandle \<Rightarrow> bool" where
  "dirty_frame_ok a pn f = (dirty f \<longrightarrow> 0 \<le> pageNum f \<and> (pageNum f = pn \<longrightarrow> data f = Some a))"

text \<open>
  Frame \<open>k\<close> of the pool, one of its \<^verbatim>\<open>numPages\<close> frames, holds page \<open>pn\<close> in buffer \<open>a\<close>;
  no other frame holds that page or has that buffer, and every dirty frame has a page
  number that is not negative.
\<close>

definition sole_frame :: "nat \<Rightarrow> nat \<Rightarrow> int \<Rightarrow> BM_BufferPool \<Rightarrow> bool" where
  "sole_frame k a pn bm =
     (k < length (mgmtData bm) \<and> int k < numPages bm
      \<and> data (mgmtData bm ! k) = Some a \<and> pageNum (mgmtData bm ! k) = pn
      \<and> list_all (\<lambda>j. j = k \<or> (data (mgmtData bm ! j) \<noteq> Some a \<and> pageNum (mgmtData bm ! j) \<noteq> pn))
           [0..<length (mgmtData bm)]
      \<and> list_all (\<lambda>f. dirty f \<longrightarrow> 0 \<le> pageNum f) (mgmtData bm))"

text \<open>The same pinned page in a pool of two frames, the second one free, and its table.\<close>

definition pool_pinned2 :: BM_BufferPool where
  "pool_pinned2 =
     \<lparr>pageFile = ''t.bin'', numPages = 2, strategy = RS_FIFO,
      mgmtData = [\<lparr>pageNum = 0, data = Some 0, dirty = False, fixCounts = 1,
                   strategyAttribute = Some 0\<rparr>,
                  \<lparr>pageNum = NO_PAGE, data = None, dirty = False, fixCounts = 0,
                   strategyAttribute = None\<rparr>],
      numReadIO = 1, numWriteIO = 0, timer = 1\<rparr>"

definition table_pinned2 :: RM_TableData where
  "table_pinned2 =
     \<lparr>tbl_name = ''t.bin'', tbl_schema = schema_ab, tbl_bm = pool_pinned2,
      tbl_fh = \<lparr>fileName = ''t.bin'', totalNumPages = 5, curPagePos = 0\<rparr>\<rparr>"

section \<open>Storage manager: properties\<close>

text \<open>
  C9. For every open page-file handle (its file can be opened) whose current position
  is 0, \<^verbatim>\<open>readPreviousBlock\<close> returns \<^verbatim>\<open>RC_READ_NON_EXISTING_PAGE\<close> and leaves the
  handle, its current position included, and the caller's buffer unchanged.
\<close>

theorem readPreviousBlock_at_zero:
  assumes "curPagePos fHandle = 0" and "fs (fileName fHandle) = Some file"
  shows "readPreviousBlock fs fHandle memPage = Inr (RC_READ_NON_EXISTING_PAGE, fHandle, memPage)"
  using assms
  by (simp add: readPreviousBlock_def bindU_def c_int_def PAGE_SIZE_def INT_MIN_def INT_MAX_def)

theorem readPreviousBlock_at_zero_witness:
  "curPagePos \<lparr>fileName = ''t.bin'', totalNumPages = 1, curPagePos = 0\<rparr> = 0
   \<and> (Map.empty(''t.bin'' \<mapsto> replicate 4096 (0::byte)))
        (fileName \<lparr>fileName = ''t.bin'', totalNumPages = 1, curPagePos = 0\<rparr>)
      = Some (replicate 4096 0)
   \<and> readPreviousBlock (Map.empty(''t.bin'' \<mapsto> replicate 4096 0))
        \<lparr>fileName = ''t.bin'', totalNumPages = 1, curPagePos = 0\<rparr> (replicate 4096 1)
      = Inr (RC_READ_NON_EXISTING_PAGE,
             \<lparr>fileName = ''t.bin'', totalNumPages = 1, curPagePos = 0\<rparr>, replicate 4096 1)"
  using readPreviousBlock_at_zero
          [of "\<lparr>fileName = ''t.bin'', totalNumPages = 1, curPagePos = 0\<rparr>"
              "Map.empty(''t.bin'' \<mapsto> replicate 4096 (0::byte))" "replicate 4096 0"
              "replicate 4096 1"]
  by simp

section \<open>Record codec: properties\<close>

lemma sizeSum_simps [simp]:
  "sizeSum [] = 0"
  "sizeSum (a # as) = attrSize a + sizeSum as"
  "sizeSum (xs @ ys) = sizeSum xs + sizeSum ys"
  by (simp_all add: sizeSum_def)

lemma sizeSum_nonneg: "\<forall>a \<in> set xs. 0 \<le> attrSize a \<Longrightarrow> 0 \<le> sizeSum xs"
  by (induction xs) auto

lemma add_sizes_Inr: "add_sizes t as = Inr n \<Longrightarrow> n = t + sizeSum as"
proof (induction as arbitrary: t)
  case Nil
  then show ?case by simp
next
  case (Cons a as)
  from Cons.prems have "add_sizes (t + attrSize a) as = Inr n"
    by (auto simp: bindU_def c_int_def split: if_split_asm)
  then show ?case using Cons.IH by fastforce
qed

lemma add_sizes_range:
  "add_sizes t as = Inr n \<Longrightarrow> INT_MIN \<le> t \<Longrightarrow> t \<le> INT_MAX \<Longrightarrow> INT_MIN \<le> n \<and> n \<le> INT_MAX"
proof (induction as arbitrary: t)
  case Nil
  then show ?case by simp
next
  case (Cons a as)
  from Cons.prems(1) have "add_sizes (t + attrSize a) as = Inr n"
    and "INT_MIN \<le> t + attrSize a" and "t + attrSize a \<le> INT_MAX"
    by (auto simp: bindU_def c_int_def split: if_split_asm)
  then show ?case by (rule Cons.IH)
qed

lemma add_sizes_ok:
  "\<forall>a \<in> set as. 0 \<le> attrSize a \<Longrightarrow> INT_MIN \<le> t \<Longrightarrow> t + sizeSum as \<le> INT_MAX \<Longrightarrow>
     add_sizes t as = Inr (t + sizeSum as)"
proof (induction as arbitrary: t)
  case Nil
  then show ?case by simp
next
  case (Cons a as)
  have r: "0 \<le> sizeSum as" using Cons.prems(1) by (intro sizeSum_nonneg) simp
  have a: "0 \<le> attrSize a" using Cons.prems(1) by simp
  have "c_int (t + attrSize a) = Inr (t + attrSize a)"
    using Cons.prems(2,3) r a by (simp add: c_int_def)
  moreover have "add_sizes (t + attrSize a) as = Inr (t + attrSize a + sizeSum as)"
    using Cons.prems r a by (intro Cons.IH) simp_all
  ultimately show ?case by (simp add: bindU_def add.assoc)
qed

lemma getRecordSize_Inr: "getRecordSize schema = Inr sz \<Longrightarrow> sz = sizeSum (attrs schema)"
  by (auto simp: getRecordSize_def dest: add_sizes_Inr)

lemma getRecordSize_range:
  "getRecordSize schema = Inr sz \<Longrightarrow> INT_MIN \<le> sz \<and> sz \<le> INT_MAX"
  using add_sizes_range [of 0 "attrs schema" sz]
  by (simp add: getRecordSize_def INT_MIN_def INT_MAX_def)

lemma add_sizes_Inl: "add_sizes t as = Inl e \<Longrightarrow> e = SignedOverflow"
proof (induction as arbitrary: t)
  case Nil
  then show ?case by simp
next
  case (Cons a as)
  show ?case
  proof (cases "c_int (t + attrSize a)")
    case (Inl e')
    with Cons.prems show ?thesis by (auto simp: bindU_def c_int_def split: if_split_asm)
  next
    case (Inr t')
    with Cons.prems have "add_sizes t' as = Inl e" by (simp add: bindU_def)
    then show ?thesis by (rule Cons.IH)
  qed
qed

lemma getRecordSize_Inl: "getRecordSize schema = Inl e \<Longrightarrow> e = SignedOverflow"
  unfolding getRecordSize_def by (rule add_sizes_Inl)

lemma sizeSum_take_le:
  assumes "\<forall>a \<in> set as. 0 \<le> attrSize a"
  shows "sizeSum (take k as) \<le> sizeSum as"
proof -
  have "sizeSum as = sizeSum (take k as) + sizeSum (drop k as)"
    by (metis append_take_drop_id sizeSum_simps(3))
  moreover have "0 \<le> sizeSum (drop k as)"
    using assms by (auto intro!: sizeSum_nonneg dest: in_set_dropD)
  ultimately show ?thesis by simp
qed

lemma attrOffset_ok:
  assumes wf: "\<forall>a \<in> set (attrs schema). 0 \<le> attrSize a"
    and size: "getRecordSize schema = Inr sz"
  shows "attrOffset schema k = Inr (sizeSum (take k (attrs schema)))"
proof -
  have "sz = sizeSum (attrs schema)" using size by (rule getRecordSize_Inr)
  moreover have "sz \<le> INT_MAX" using getRecordSize_range [OF size] by simp
  ultimately have "0 + sizeSum (take k (attrs schema)) \<le> INT_MAX"
    using sizeSum_take_le [OF wf, of k] by simp
  moreover have "\<forall>a \<in> set (take k (attrs schema)). 0 \<le> attrSize a"
    using wf by (auto dest: in_set_takeD)
  ultimately have "add_sizes 0 (take k (attrs schema)) = Inr (0 + sizeSum (take k (attrs schema)))"
    by (intro add_sizes_ok) (simp_all add: INT_MIN_def)
  then show ?thesis by (simp add: attrOffset_def)
qed

lemma length_strncpy_bytes: "length (strncpy_bytes s n) = n"
  by (simp add: strncpy_bytes_def)

lemma memcpy_to_length: "memcpy_to buf off src = Inr d \<Longrightarrow> length d = length buf"
  by (auto simp: memcpy_to_def split: if_splits)

lemma memcpy_to_nth_written:
  "memcpy_to buf off src = Inr d \<Longrightarrow> k < length src \<Longrightarrow> d ! (nat off + k) = src ! k"
  by (auto simp: memcpy_to_def nth_append split: if_splits)

lemma memcpy_to_in_bounds:
  "0 \<le> off \<Longrightarrow> off + int (length src) \<le> int (length buf) \<Longrightarrow> \<exists>d. memcpy_to buf off src = Inr d"
  by (simp add: memcpy_to_def)

text \<open>
  C10 (as amended). Let the attribute sizes of the schema be non-negative, let
  \<^verbatim>\<open>getRecordSize(schema)\<close> return \<open>sz\<close> without overflow, and let the record buffer have
  \<open>sz\<close> bytes. For a string attribute \<open>i\<close> of declared length \<open>n\<close> at offset \<open>off\<close>,
  \<^verbatim>\<open>setAttr\<close> writes the terminating zero byte at position \<open>off + n\<close>, one byte past the
  attribute's field, which is the offset of attribute \<open>i + 1\<close> and at most \<open>sz\<close>.
  When attribute \<open>i\<close> is not the last one and attribute \<open>i + 1\<close> has at least one byte,
  the position is inside the buffer and is the first byte of attribute \<open>i + 1\<close>:
  \<^verbatim>\<open>setAttr\<close> returns \<^verbatim>\<open>RC_OK\<close>, the byte there is 0 afterwards, and a record in which
  it was not 0 is changed outside attribute \<open>i\<close>. The same holds whenever the position
  is below \<open>sz\<close>. When \<open>i\<close> is the last attribute the position is \<open>sz\<close>, and whenever the
  position is \<open>sz\<close> the write is one byte past the buffer.
\<close>

theorem setAttr_string_terminator:
  assumes wf: "\<forall>a \<in> set (attrs schema). 0 \<le> attrSize a"
    and i: "i < length (attrs schema)"
    and str: "attrs schema ! i = (nm, DT_STRING, n)"
    and size: "getRecordSize schema = Inr sz"
    and buf: "int (length (data_r record)) = sz"
  shows "\<exists>off. attrOffset schema i = Inr off \<and> attrOffset schema (Suc i) = Inr (off + n)
    \<and> off + n \<le> sz
    \<and> (Suc i < length (attrs schema) \<and> 0 < attrSize (attrs schema ! Suc i) \<longrightarrow>
         off + n < sz
         \<and> (\<exists>d. setAttr record schema (int i) (StringV s) = Inr (RC_OK, record\<lparr>data_r := d\<rparr>)
              \<and> length d = length (data_r record)
              \<and> d ! nat (off + n) = 0
              \<and> (data_r record ! nat (off + n) \<noteq> 0 \<longrightarrow> d \<noteq> data_r record)))
    \<and> (off + n < sz \<longrightarrow>
         (\<exists>d. setAttr record schema (int i) (StringV s) = Inr (RC_OK, record\<lparr>data_r := d\<rparr>)
              \<and> length d = length (data_r record)
              \<and> d ! nat (off + n) = 0
              \<and> (data_r record ! nat (off + n) \<noteq> 0 \<longrightarrow> d \<noteq> data_r record)))
    \<and> (Suc i = length (attrs schema) \<longrightarrow>
         off + n = sz
         \<and> setAttr record schema (int i) (StringV s) = Inl (MemoryError OutOfBounds))
    \<and> (off + n = sz \<longrightarrow>
         setAttr record schema (int i) (StringV s) = Inl (MemoryError OutOfBounds))"
proof -
  let ?off = "sizeSum (take i (attrs schema))"
  let ?W = "\<exists>d. setAttr record schema (int i) (StringV s) = Inr (RC_OK, record\<lparr>data_r := d\<rparr>)
              \<and> length d = length (data_r record)
              \<and> d ! nat (?off + n) = 0
              \<and> (data_r record ! nat (?off + n) \<noteq> 0 \<longrightarrow> d \<noteq> data_r record)"
  let ?O = "setAttr record schema (int i) (StringV s) = Inl (MemoryError OutOfBounds)"
  have n0: "0 \<le> n" using wf i str by (metis attrSize.simps(4) nth_mem)
  have off0: "0 \<le> ?off"
    using wf by (auto intro!: sizeSum_nonneg dest: in_set_takeD)
  have sz: "sz = sizeSum (attrs schema)" using size by (rule getRecordSize_Inr)
  have szmax: "sz \<le> INT_MAX" using getRecordSize_range [OF size] by simp
  have o1: "attrOffset schema i = Inr ?off" using wf size by (rule attrOffset_ok)
  have tk: "sizeSum (take (Suc i) (attrs schema)) = ?off + n"
    using i str by (simp add: take_Suc_conv_app_nth)
  have o2: "attrOffset schema (Suc i) = Inr (?off + n)"
    using attrOffset_ok [OF wf size, of "Suc i"] tk by simp
  have le: "?off + n \<le> sz"
    using sizeSum_take_le [OF wf, of "Suc i"] tk sz by simp
  have pos: "c_int (?off + n) = Inr (?off + n)"
    using le szmax off0 n0 by (simp add: c_int_def INT_MIN_def)
  have idx: "\<not> (int i < 0 \<or> int i \<ge> numAttr schema)"
    using i by (simp add: numAttr_def)
  obtain d1 where d1: "memcpy_to (data_r record) ?off (strncpy_bytes s (nat n)) = Inr d1"
    using memcpy_to_in_bounds [of ?off "strncpy_bytes s (nat n)" "data_r record"] off0 n0 le buf
    by (auto simp: length_strncpy_bytes)
  have len1: "length d1 = length (data_r record)" using d1 by (rule memcpy_to_length)
  have run: "setAttr record schema (int i) (StringV s)
             = liftU (bindU (memcpy_to d1 (?off + n) [0]) (\<lambda>d. Inr (RC_OK, record\<lparr>data_r := d\<rparr>)))"
    using idx str n0 d1 o1 pos by (simp add: setAttr_def bindU_def Let_def)
  have W: ?W if lt: "?off + n < sz"
  proof -
    obtain d where d: "memcpy_to d1 (?off + n) [0] = Inr d"
      using memcpy_to_in_bounds [of "?off + n" "[0]" d1] off0 n0 lt buf len1 by auto
    have "d ! (nat (?off + n) + 0) = [0] ! 0"
      using d by (rule memcpy_to_nth_written) simp
    then have z: "d ! nat (?off + n) = 0" by simp
    have "length d = length (data_r record)" using memcpy_to_length [OF d] len1 by simp
    moreover have "setAttr record schema (int i) (StringV s) = Inr (RC_OK, record\<lparr>data_r := d\<rparr>)"
      using run d by (simp add: bindU_def liftU_def)
    ultimately show ?W using z by auto
  qed
  have O: ?O if eq: "?off + n = sz"
  proof -
    have "memcpy_to d1 (?off + n) [0] = Inl OutOfBounds"
      using eq buf len1 by (simp add: memcpy_to_def)
    then show ?O using run by (simp add: bindU_def liftU_def)
  qed
  have A: "?off + n < sz"
    if nl: "Suc i < length (attrs schema) \<and> 0 < attrSize (attrs schema ! Suc i)"
  proof -
    have "sizeSum (take (Suc (Suc i)) (attrs schema))
            = ?off + n + attrSize (attrs schema ! Suc i)"
      using nl tk by (simp add: take_Suc_conv_app_nth [of "Suc i"])
    then show ?thesis
      using sizeSum_take_le [OF wf, of "Suc (Suc i)"] sz nl by simp
  qed
  have B: "?off + n = sz" if last: "Suc i = length (attrs schema)"
    using tk sz last by simp
  show ?thesis
    using o1 o2 le W O A B by (intro exI [of _ ?off]) blast
qed

theorem setAttr_string_terminator_witness:
  "list_all (\<lambda>a. 0 \<le> attrSize a) (attrs schema_sa)
   \<and> 0 < length (attrs schema_sa) \<and> attrs schema_sa ! 0 = (''s'', DT_STRING, 4)
   \<and> getRecordSize schema_sa = Inr 8
   \<and> int (length (data_r record_sa)) = 8
   \<and> attrOffset schema_sa 0 = Inr 0 \<and> attrOffset schema_sa (Suc 0) = Inr 4
   \<and> Suc 0 < length (attrs schema_sa) \<and> 0 < attrSize (attrs schema_sa ! Suc 0)
   \<and> data_r record_sa ! 4 = 7
   \<and> setAttr record_sa schema_sa 0 (StringV [97, 98, 99, 100])
       = Inr (RC_OK, record_sa\<lparr>data_r := [97, 98, 99, 100, 0, 0, 0, 0]\<rparr>)
   \<and> list_all (\<lambda>a. 0 \<le> attrSize a) (attrs schema_ab)
   \<and> 1 < length (attrs schema_ab) \<and> attrs schema_ab ! 1 = (''b'', DT_STRING, 4)
   \<and> getRecordSize schema_ab = Inr 8
   \<and> int (length (data_r record_ab)) = 8
   \<and> Suc 1 = length (attrs schema_ab)
   \<and> attrOffset schema_ab 1 = Inr 4
   \<and> setAttr record_ab schema_ab 1 (StringV [101, 102, 103, 104]) = Inl (MemoryError OutOfBounds)"
  using setAttr_string_terminator
          [of schema_sa 0 "''s''" 4 8 record_sa "[97, 98, 99, 100]"]
        setAttr_string_terminator
          [of schema_ab 1 "''b''" 4 8 record_ab "[101, 102, 103, 104]"]
  by (simp add: schema_sa_def schema_ab_def record_sa_def record_ab_def getRecordSize_def
        attrOffset_def setAttr_def numAttr_def bindU_def liftU_def memcpy_to_def
        strncpy_bytes_def c_int_def INT_MIN_def INT_MAX_def)

text \<open>
  C10 as stated fails for a schema whose later attributes are empty: in
  \<open>(s: STRING[4], t: STRING[0])\<close> attribute 0 is not the last attribute, the record buffer
  has \<^verbatim>\<open>getRecordSize(schema)\<close> = 4 bytes, and \<^verbatim>\<open>setAttr\<close> on attribute 0 writes
  the zero byte at position 4, past the buffer, not into a byte of attribute 1.
\<close>

theorem setAttr_empty_next_counterexample:
  "numAttr schema_s0 = 2
   \<and> attrs schema_s0 ! 0 = (''s'', DT_STRING, 4)
   \<and> attrs schema_s0 ! 1 = (''t'', DT_STRING, 0)
   \<and> getRecordSize schema_s0 = Inr 4
   \<and> int (length (data_r record_s0)) = 4
   \<and> attrOffset schema_s0 0 = Inr 0
   \<and> attrOffset schema_s0 1 = Inr 4
   \<and> setAttr record_s0 schema_s0 0 (StringV [97, 98, 99, 100]) = Inl (MemoryError OutOfBounds)"
  by (simp add: schema_s0_def record_s0_def getRecordSize_def attrOffset_def setAttr_def
        numAttr_def bindU_def liftU_def memcpy_to_def strncpy_bytes_def c_int_def INT_MIN_def
        INT_MAX_def)

section \<open>Buffer manager: properties\<close>

lemmas bm_defs =
  pinPage_def unpinPage_def initBufferPool_def frame_at_def set_frame_def bindU_def c_int_def
  INT_MIN_def INT_MAX_def calloc_page_def NO_PAGE_def PAGE_SIZE_def fread_page_def
  seek_pos_def strategyFIFOandLRU_def getAttributionArray_def getFixCounts_def
  evict_step_def forcePage_frame_def forcePage_def getFrameContents_def RC_defs

lemma upt_3: "[0..<3] = [0, Suc 0, Suc (Suc 0)]"
  by (simp add: upt_rec)

lemma replicate_3: "replicate 3 x = [x, x, x]"
  by (simp add: numeral_3_eq_3)

text \<open>
  C6. A pool of 3 frames under LRU, starting empty, on an existing page file: pin and
  unpin pages 1, 2, 3, pin and unpin page 1 again, then pin page 4. The scenario runs
  to its end, and afterwards the frame contents are \<open>[1, 4, 3]\<close>: page 2, the least
  recently used, was evicted; four pages were read and none written.
\<close>

theorem lru_eviction_order:
  assumes "files w fname = Some file"
  shows "\<exists>w' bm' h'. lru_scenario w bp0 h0 fname = Inr (w', bm', h')
           \<and> getFrameContents bm' = Inr [1, 4, 3]
           \<and> map fixCounts (mgmtData bm') = [0, 1, 0]
           \<and> numReadIO bm' = 4 \<and> numWriteIO bm' = 0"
  using assms
  by (simp add: lru_scenario_def pin_unpin_def bm_defs upt_3 replicate_3)

theorem lru_eviction_order_witness:
  "files world0 ''t.bin'' = Some (replicate 20480 0)
   \<and> (\<exists>w' bm' h'. lru_scenario world0 pool0 handle0 ''t.bin'' = Inr (w', bm', h')
           \<and> getFrameContents bm' = Inr [1, 4, 3]
           \<and> map fixCounts (mgmtData bm') = [0, 1, 0]
           \<and> numReadIO bm' = 4 \<and> numWriteIO bm' = 0)"
  using lru_eviction_order [of world0 "''t.bin''" "replicate 20480 0" pool0 handle0]
  by (simp add: world0_def)

lemma bindU_Inr_iff: "bindU m f = Inr y \<longleftrightarrow> (\<exists>x. m = Inr x \<and> f x = Inr y)"
  by (cases m) (auto simp: bindU_def)

lemma case_option_Inr_iff:
  "(case x of None \<Rightarrow> Inl e | Some a \<Rightarrow> f a) = Inr y \<longleftrightarrow> (\<exists>a. x = Some a \<and> f a = Inr y)"
  by (cases x) auto

lemma case_prod_Inr_iff:
  "(case p of (a, b) \<Rightarrow> f a b) = Inr y \<longleftrightarrow> (\<exists>a b. p = (a, b) \<and> f a b = Inr y)"
  by (cases p) auto

lemmas inv_simps = bindU_Inr_iff case_option_Inr_iff

lemma frame_at_Inr: "frame_at bm i = Inr f \<Longrightarrow> 0 \<le> i \<and> nat i < length (mgmtData bm) \<and> f = mgmtData bm ! nat i"
  by (auto simp: frame_at_def split: if_splits)

lemma fcs_set_frame:
  "frame_at bm i = Inr f \<Longrightarrow> fixCounts g = fixCounts f \<Longrightarrow>
     map fixCounts (mgmtData (set_frame bm i g)) = map fixCounts (mgmtData bm)"
  by (auto dest!: frame_at_Inr simp: set_frame_def map_update list_update_same_conv)

lemma fcs_clear_dirty:
  "clear_dirty bm pn is = Inr bm' \<Longrightarrow> map fixCounts (mgmtData bm') = map fixCounts (mgmtData bm)"
  by (induction "is") (auto simp: bindU_Inr_iff fcs_set_frame split: if_splits)

lemma fcs_forcePage:
  "forcePage w bm h = Inr (rc, w', bm', h') \<Longrightarrow>
     map fixCounts (mgmtData bm') = map fixCounts (mgmtData bm)"
  by (cases "files w (pageFile bm)") (auto simp: forcePage_def inv_simps dest!: fcs_clear_dirty)

lemma fcs_forcePage_frame:
  "forcePage_frame w bm i = Inr (rc, w', bm') \<Longrightarrow>
     map fixCounts (mgmtData bm') = map fixCounts (mgmtData bm)"
  by (auto simp: forcePage_frame_def bindU_Inr_iff fcs_set_frame split: if_splits dest!: fcs_forcePage)

lemma fcs_flush_loop:
  "flush_loop w bm df fc is = Inr (rc, w', bm') \<Longrightarrow>
     map fixCounts (mgmtData bm') = map fixCounts (mgmtData bm)"
proof (induction "is" arbitrary: w bm)
  case Nil
  then show ?case by simp
next
  case (Cons i rest)
  show ?case
  proof (cases "df ! i \<and> fc ! i = 0")
    case False
    with Cons show ?thesis by auto
  next
    case True
    with Cons.prems obtain rc1 w1 bm1 where
      fp: "forcePage_frame w bm (int i) = Inr (rc1, w1, bm1)" and
      rest: "(if rc1 \<noteq> RC_OK then Inr (rc1, w1, bm1)
              else bindU (frame_at bm1 (int i)) (\<lambda>f.
                    flush_loop w1 (set_frame bm1 (int i) (f\<lparr>dirty := False\<rparr>)) df fc rest))
             = Inr (rc, w', bm')"
      by (auto simp: bindU_Inr_iff)
    have a: "map fixCounts (mgmtData bm1) = map fixCounts (mgmtData bm)"
      using fp by (rule fcs_forcePage_frame)
    show ?thesis
    proof (cases "rc1 \<noteq> RC_OK")
      case True
      with rest a show ?thesis by simp
    next
      case False
      with rest obtain f where f: "frame_at bm1 (int i) = Inr f"
        and fl: "flush_loop w1 (set_frame bm1 (int i) (f\<lparr>dirty := False\<rparr>)) df fc rest = Inr (rc, w', bm')"
        by (auto simp: bindU_Inr_iff)
      from Cons.IH [OF fl] f a show ?thesis by (simp add: fcs_set_frame)
    qed
  qed
qed

lemma fcs_forceFlushPool:
  "forceFlushPool w bm = Inr (rc, w', bm') \<Longrightarrow>
     map fixCounts (mgmtData bm') = map fixCounts (mgmtData bm)"
  by (cases "getDirtyFlags bm"; cases "getFixCounts bm")
     (auto simp: forceFlushPool_def bindU_def split: option.split_asm dest!: fcs_flush_loop)

lemma fcs_markDirty_loop:
  "markDirty_loop bm pn is = Inr (rc, bm') \<Longrightarrow> map fixCounts (mgmtData bm') = map fixCounts (mgmtData bm)"
  by (induction "is") (auto simp: bindU_Inr_iff fcs_set_frame split: if_splits)

lemma fcs_markDirty:
  "markDirty bm h = Inr (rc, bm', h') \<Longrightarrow> map fixCounts (mgmtData bm') = map fixCounts (mgmtData bm)"
  by (auto simp: markDirty_def bindU_Inr_iff dest!: fcs_markDirty_loop)

lemma mapU_fixCounts:
  "mapU g xs = Inr ys \<Longrightarrow> (\<And>x y. g x = Inr y \<Longrightarrow> fixCounts y = fixCounts x) \<Longrightarrow>
     map fixCounts ys = map fixCounts xs"
  by (induction xs arbitrary: ys) (auto simp: bindU_Inr_iff)

lemma fcs_strategyFIFOandLRU:
  assumes "strategyFIFOandLRU bm = Inr (p, bm')"
  shows "map fixCounts (mgmtData bm') = map fixCounts (mgmtData bm)"
proof -
  have g: "\<And>l (x::BM_PageHandle) y. (case strategyAttribute x of None \<Rightarrow> Inr x
              | Some a \<Rightarrow> bindU (c_int (a - l)) (\<lambda>a'. Inr (x\<lparr>strategyAttribute := Some a'\<rparr>))) = Inr y
           \<Longrightarrow> fixCounts y = fixCounts x"
    by (auto simp: bindU_Inr_iff split: option.splits)
  have "\<And>l fs. mapU (\<lambda>f. case strategyAttribute f of None \<Rightarrow> Inr f
              | Some a \<Rightarrow> bindU (c_int (a - l)) (\<lambda>a'. Inr (f\<lparr>strategyAttribute := Some a'\<rparr>)))
            (take (nat (numPages bm)) (mgmtData bm)) = Inr fs
        \<Longrightarrow> map fixCounts (fs @ drop (nat (numPages bm)) (mgmtData bm)) = map fixCounts (mgmtData bm)"
  proof -
    fix l fs
    assume "mapU (\<lambda>f. case strategyAttribute f of None \<Rightarrow> Inr f
              | Some a \<Rightarrow> bindU (c_int (a - l)) (\<lambda>a'. Inr (f\<lparr>strategyAttribute := Some a'\<rparr>)))
            (take (nat (numPages bm)) (mgmtData bm)) = Inr fs"
    then have "map fixCounts fs = map fixCounts (take (nat (numPages bm)) (mgmtData bm))"
      by (rule mapU_fixCounts) (rule g)
    then show "map fixCounts (fs @ drop (nat (numPages bm)) (mgmtData bm)) = map fixCounts (mgmtData bm)"
      by (metis append_take_drop_id map_append)
  qed
  with assms show ?thesis
    by (auto simp: strategyFIFOandLRU_def inv_simps case_prod_Inr_iff split: if_split_asm)
qed

lemma fcs_pinPage_loop:
  "pinPage_loop w bm pn flag pnum is = Inr (w', bm', flag', pnum') \<Longrightarrow>
     map fixCounts (mgmtData bm') = map fixCounts (mgmtData bm)"
proof (induction "is" arbitrary: w bm flag pnum)
  case Nil
  then show ?case by simp
next
  case (Cons i rest)
  from Cons.prems obtain f where f: "frame_at bm (int i) = Inr f" 
    by (auto simp: bindU_Inr_iff)
  show ?case using Cons.prems f
    by (auto simp: inv_simps case_prod_Inr_iff fcs_set_frame calloc_page_def
          split: if_split_asm
          dest!: Cons.IH fcs_strategyFIFOandLRU fcs_forcePage_frame)
qed


lemma fix_counts_nonneg_map:
  "fix_counts_nonneg bm \<longleftrightarrow> (\<forall>x \<in> set (map fixCounts (mgmtData bm)). 0 \<le> x)"
  by (auto simp: fix_counts_nonneg_def list_all_iff)

lemma fix_counts_nonneg_cong:
  "map fixCounts (mgmtData bm') = map fixCounts (mgmtData bm) \<Longrightarrow>
     fix_counts_nonneg bm \<Longrightarrow> fix_counts_nonneg bm'"
  by (simp only: fix_counts_nonneg_map)

lemma fix_counts_nonneg_set_frame:
  "fix_counts_nonneg bm \<Longrightarrow> 0 \<le> fixCounts g \<Longrightarrow> fix_counts_nonneg (set_frame bm i g)"
  by (auto simp: fix_counts_nonneg_def set_frame_def list_all_iff dest!: set_update_subset_insert [THEN subsetD])

lemma fix_counts_nonneg_frame_at:
  "fix_counts_nonneg bm \<Longrightarrow> frame_at bm i = Inr f \<Longrightarrow> 0 \<le> fixCounts f"
  by (auto simp: fix_counts_nonneg_def list_all_iff dest!: frame_at_Inr)

lemma c_int_Inr: "c_int x = Inr y \<Longrightarrow> y = x"
  by (auto simp: c_int_def split: if_split_asm)

lemma fix_counts_nonneg_upd [simp]:
  "fix_counts_nonneg (bm\<lparr>timer := t\<rparr>) = fix_counts_nonneg bm"
  "fix_counts_nonneg (bm\<lparr>numReadIO := r\<rparr>) = fix_counts_nonneg bm"
  "fix_counts_nonneg (bm\<lparr>numWriteIO := r\<rparr>) = fix_counts_nonneg bm"
  by (simp_all add: fix_counts_nonneg_def)

lemma fix_counts_nonneg_pinPage:
  assumes inv: "fix_counts_nonneg bm" and run: "pinPage w bm h pn = Inr (rc, w', bm', h')"
  shows "fix_counts_nonneg bm'"
proof -
  from run obtain w1 bm1 flag pnum where
    loop: "pinPage_loop w bm pn 0 (- 1) [0..<nat (numPages bm)] = Inr (w1, bm1, flag, pnum)"
    by (auto simp: pinPage_def bindU_Inr_iff)
  have inv1: "fix_counts_nonneg bm1"
    using fcs_pinPage_loop [OF loop] inv by (rule fix_counts_nonneg_cong)
  have pos: "\<And>f fc. frame_at bm1 pnum = Inr f \<Longrightarrow> c_int (fixCounts f + 1) = Inr fc \<Longrightarrow> 0 \<le> fc"
    using fix_counts_nonneg_frame_at [OF inv1] by (auto dest!: c_int_Inr)
  consider "flag = 1" | "flag = 2" | "flag \<noteq> 1 \<and> flag \<noteq> 2" by blast
  then show ?thesis
  proof cases
    case 1
    with run loop show ?thesis
      using inv1 pos
      by (auto simp: pinPage_def bindU_Inr_iff case_option_Inr_iff Let_def
            intro!: fix_counts_nonneg_set_frame split: if_split_asm)
  next
    case 2
    with run loop show ?thesis
      using inv1 pos
      by (auto simp: pinPage_def bindU_Inr_iff Let_def intro!: fix_counts_nonneg_set_frame)
  next
    case 3
    with run loop show ?thesis
      using inv1 by (auto simp: pinPage_def bindU_Inr_iff)
  qed
qed

lemma fix_counts_nonneg_unpinPage_loop:
  assumes "unpinPage_loop bm pn is = Inr bm'" and "fix_counts_nonneg bm"
    and "list_all (\<lambda>f. pageNum f = pn \<longrightarrow> 0 < fixCounts f) (mgmtData bm)"
  shows "fix_counts_nonneg bm'"
  using assms
proof (induction "is")
  case Nil
  then show ?case by simp
next
  case (Cons i rest)
  from Cons.prems(1) obtain f where f: "frame_at bm (int i) = Inr f"
    by (auto simp: bindU_Inr_iff)
  show ?case
  proof (cases "pageNum f = pn")
    case True
    have "0 < fixCounts f"
      using Cons.prems(3) f True by (auto simp: list_all_iff dest!: frame_at_Inr)
    then show ?thesis
      using Cons.prems f True
      by (auto simp: bindU_Inr_iff intro!: fix_counts_nonneg_set_frame dest!: c_int_Inr)
  next
    case False
    then show ?thesis using Cons f by (auto simp: bindU_Inr_iff)
  qed
qed

lemma fix_counts_nonneg_init:
  "fix_counts_nonneg bm \<Longrightarrow> initBufferPool w bm fname n s = (rc, bm') \<Longrightarrow> fix_counts_nonneg bm'"
  by (auto simp: initBufferPool_def fix_counts_nonneg_def Let_def list_all_iff
        split: option.split_asm if_split_asm)

lemma fix_counts_nonneg_init_ok:
  "initBufferPool w bm fname n s = (RC_OK, bm') \<Longrightarrow> fix_counts_nonneg bm'"
  by (auto simp: initBufferPool_def fix_counts_nonneg_def Let_def list_all_iff RC_defs
        split: option.split_asm if_split_asm)

lemma fix_counts_nonneg_shutdown:
  "fix_counts_nonneg bm \<Longrightarrow> shutdownBufferPool w bm = Inr (rc, w', bm') \<Longrightarrow> fix_counts_nonneg bm'"
  by (auto simp: shutdownBufferPool_def bindU_Inr_iff case_prod_Inr_iff
        split: if_split_asm dest!: fcs_forceFlushPool intro: fix_counts_nonneg_cong)
     (simp add: fix_counts_nonneg_def)

lemma fix_counts_nonneg_step:
  assumes "fix_counts_nonneg bm" and "call_ok bm c" and "bm_step w bm c = Inr (w', bm')"
  shows "fix_counts_nonneg bm'"
proof (cases c)
  case (InitBufferPool fname n s)
  with assms show ?thesis by (auto split: prod.split_asm dest: fix_counts_nonneg_init)
next
  case (PinPage h pn)
  with assms show ?thesis by (auto simp: bindU_Inr_iff dest: fix_counts_nonneg_pinPage)
next
  case (UnpinPage h)
  with assms show ?thesis
    by (auto simp: bindU_Inr_iff unpinPage_def dest: fix_counts_nonneg_unpinPage_loop)
next
  case (MarkDirty h)
  with assms show ?thesis
    by (auto simp: bindU_Inr_iff dest!: fcs_markDirty intro: fix_counts_nonneg_cong)
next
  case (ForcePage h)
  with assms show ?thesis
    by (auto simp: bindU_Inr_iff dest!: fcs_forcePage intro: fix_counts_nonneg_cong)
next
  case ForceFlushPool
  with assms show ?thesis
    by (auto simp: bindU_Inr_iff dest!: fcs_forceFlushPool intro: fix_counts_nonneg_cong)
next
  case ShutdownBufferPool
  with assms show ?thesis
    by (auto simp: bindU_Inr_iff dest: fix_counts_nonneg_shutdown)
qed

lemma fix_counts_nonneg_run:
  "fix_counts_nonneg bm \<Longrightarrow> run_ok w bm cs \<Longrightarrow> bm_run w bm cs = Inr (w', bm') \<Longrightarrow>
     fix_counts_nonneg bm'"
proof (induction cs arbitrary: w bm)
  case Nil
  then show ?case by simp
next
  case (Cons c cs)
  from Cons.prems(3) obtain w1 bm1 where
    step: "bm_step w bm c = Inr (w1, bm1)" and rest: "bm_run w1 bm1 cs = Inr (w', bm')"
    by (auto simp: bindU_Inr_iff)
  have "fix_counts_nonneg bm1"
    using Cons.prems(1,2) step by (auto intro: fix_counts_nonneg_step)
  moreover have "run_ok w1 bm1 cs" using Cons.prems(2) step by simp
  ultimately show ?case using rest by (rule Cons.IH)
qed

text \<open>
  C1 (as amended). In every state reached from a successful \<^verbatim>\<open>initBufferPool\<close> by a
  sequence of calls of \<^verbatim>\<open>initBufferPool\<close>, \<^verbatim>\<open>pinPage\<close>, \<^verbatim>\<open>unpinPage\<close>,
  \<^verbatim>\<open>markDirty\<close>, \<^verbatim>\<open>forcePage\<close>, \<^verbatim>\<open>forceFlushPool\<close> and
  \<^verbatim>\<open>shutdownBufferPool\<close> that all return, and in which \<^verbatim>\<open>unpinPage\<close> is never
  called for a page held by a frame whose fix count is not positive, every frame's fix
  count is at least 0, and so is their sum.
\<close>

theorem fix_counts_nonneg_reachable:
  assumes "initBufferPool w bp0 fname n s = (RC_OK, bm)"
    and "run_ok w bm cs" and "bm_run w bm cs = Inr (w', bm')"
  shows "(\<forall>f \<in> set (mgmtData bm'). 0 \<le> fixCounts f)
         \<and> 0 \<le> sum_list (map fixCounts (mgmtData bm'))"
proof -
  have "fix_counts_nonneg bm'"
    using fix_counts_nonneg_init_ok [OF assms(1)] assms(2,3) by (rule fix_counts_nonneg_run)
  then have "\<forall>f \<in> set (mgmtData bm'). 0 \<le> fixCounts f"
    by (simp add: fix_counts_nonneg_def list_all_iff)
  then show ?thesis by (auto intro!: sum_list_nonneg)
qed

lemmas run_defs =
  bm_defs markDirty_def forceFlushPool_def shutdownBufferPool_def getDirtyFlags_def
  free_frames_def handle_for_def handle0_def world0_def pool0_def memcpy_from_def
  fwrite_at_def

lemma upt_2: "[0..<2] = [0, Suc 0]"
  by (simp add: upt_rec)

lemma replicate_2: "replicate 2 x = [x, x]"
  by (simp add: numeral_2_eq_2)

theorem fix_counts_nonneg_reachable_witness:
  "initBufferPool world0 pool0 ''t.bin'' 2 RS_LRU = (RC_OK, pool_lru2)
   \<and> run_ok world0 pool_lru2 balanced_calls
   \<and> bm_run world0 pool_lru2 balanced_calls
       = Inr (fst (projr (bm_run world0 pool_lru2 balanced_calls)),
              snd (projr (bm_run world0 pool_lru2 balanced_calls)))
   \<and> map fixCounts (mgmtData (snd (projr (bm_run world0 pool_lru2 balanced_calls)))) = [1, 0]
   \<and> fix_counts_nonneg (snd (projr (bm_run world0 pool_lru2 balanced_calls)))
   \<and> 0 \<le> sum_list (map fixCounts
                (mgmtData (snd (projr (bm_run world0 pool_lru2 balanced_calls)))))"
  using fix_counts_nonneg_reachable
          [of world0 pool0 "''t.bin''" 2 RS_LRU pool_lru2 balanced_calls
              "fst (projr (bm_run world0 pool_lru2 balanced_calls))"
              "snd (projr (bm_run world0 pool_lru2 balanced_calls))"]
  by (simp add: pool_lru2_def balanced_calls_def run_defs upt_2 replicate_2
        fix_counts_nonneg_def)

text \<open>
  C1 as stated fails: after \<^verbatim>\<open>initBufferPool\<close> with one frame, one \<^verbatim>\<open>pinPage\<close> of
  page 0 and two \<^verbatim>\<open>unpinPage\<close> of it, all of which return, the frame's fix count
  is \<open>-1\<close>.
\<close>

theorem fix_count_underflow_counterexample:
  "fst (initBufferPool world0 pool0 ''t.bin'' 1 RS_FIFO) = RC_OK
   \<and> bm_run world0 pool_fifo1 underflow_calls
       = Inr (projr (bm_run world0 pool_fifo1 underflow_calls))
   \<and> map fixCounts (mgmtData (snd (projr (bm_run world0 pool_fifo1 underflow_calls)))) = [- 1]"
  by (simp add: pool_fifo1_def underflow_calls_def run_defs)

lemma mapU_all_Inr:
  "(\<And>x. x \<in> set xs \<Longrightarrow> f x = Inr (g x)) \<Longrightarrow> mapU f xs = Inr (map g xs)"
  by (induction xs) (auto simp: bindU_def)

lemma frame_at_nth:
  "i < length (mgmtData bm) \<Longrightarrow> frame_at bm (int i) = Inr (mgmtData bm ! i)"
  by (simp add: frame_at_def)

lemma evict_none:
  "(\<And>i. i \<in> set is \<Longrightarrow> fc ! i \<noteq> 0) \<Longrightarrow> foldl (evict_step pa fc) (t, - 1) is = (t, - 1)"
  by (induction "is") (auto simp: evict_step_def)

lemma strategy_all_pinned:
  assumes n: "numPages bm = int (length (mgmtData bm))" and ne: "mgmtData bm \<noteq> []"
    and pinned: "list_all (\<lambda>f. fixCounts f \<noteq> 0 \<and> strategyAttribute f \<noteq> None) (mgmtData bm)"
  shows "strategyFIFOandLRU bm = Inr (- 1, bm)"
proof -
  let ?n = "length (mgmtData bm)"
  have pos: "0 < numPages bm" using n ne by simp
  have idx: "nat (numPages bm) = ?n" using n by simp
  have fa: "\<And>i. i \<in> set [0..<?n] \<Longrightarrow>
              bindU (frame_at bm (int i)) (\<lambda>f. Inr (fixCounts f)) = Inr (fixCounts (mgmtData bm ! i))"
    by (simp add: frame_at_nth bindU_def)
  have fc: "getFixCounts bm = Inr (map (\<lambda>i. fixCounts (mgmtData bm ! i)) [0..<?n])"
    using pos idx mapU_all_Inr [of "[0..<?n]" _ "\<lambda>i. fixCounts (mgmtData bm ! i)", OF fa]
    by (simp add: getFixCounts_def)
  have sa: "\<And>i. i \<in> set [0..<?n] \<Longrightarrow>
              bindU (frame_at bm (int i))
                (\<lambda>f. case strategyAttribute f of None \<Rightarrow> Inl NullDeref | Some a \<Rightarrow> Inr a)
              = Inr (the (strategyAttribute (mgmtData bm ! i)))"
    using pinned by (auto simp: frame_at_nth bindU_def list_all_length)
  have aa: "getAttributionArray bm
            = Inr (Some (map (\<lambda>i. the (strategyAttribute (mgmtData bm ! i))) [0..<?n]))"
    using pos idx mapU_all_Inr [of "[0..<?n]" _ "\<lambda>i. the (strategyAttribute (mgmtData bm ! i))", OF sa]
    by (simp add: getAttributionArray_def bindU_def)
  have ev: "foldl (evict_step (map (\<lambda>i. the (strategyAttribute (mgmtData bm ! i))) [0..<?n])
                     (map (\<lambda>i. fixCounts (mgmtData bm ! i)) [0..<?n]))
              (timer bm, - 1) [0..<?n] = (timer bm, - 1)"
    using pinned by (intro evict_none) (auto simp: list_all_length)
  show ?thesis
    by (simp add: strategyFIFOandLRU_def aa fc bindU_def idx ev)
qed

lemma pinPage_loop_all_pinned:
  assumes n: "numPages bm = int (length (mgmtData bm))" and ne: "mgmtData bm \<noteq> []"
    and strat: "strategy bm = RS_FIFO \<or> strategy bm = RS_LRU"
    and pinned: "list_all (\<lambda>f. fixCounts f \<noteq> 0 \<and> strategyAttribute f \<noteq> None
                   \<and> pageNum f \<noteq> pn \<and> pageNum f \<noteq> NO_PAGE) (mgmtData bm)"
  shows "(\<forall>i \<in> set is. i < length (mgmtData bm)) \<Longrightarrow> length (mgmtData bm) - 1 \<in> set is \<Longrightarrow>
         pinPage_loop w bm pn flag pnum is = Inl OutOfBounds"
proof (induction "is")
  case Nil
  then show ?case by simp
next
  case (Cons i rest)
  have i: "i < length (mgmtData bm)" using Cons.prems(1) by simp
  have f: "frame_at bm (int i) = Inr (mgmtData bm ! i)" using i by (rule frame_at_nth)
  have m: "pageNum (mgmtData bm ! i) \<noteq> NO_PAGE" "pageNum (mgmtData bm ! i) \<noteq> pn"
    using pinned i by (auto simp: list_all_length)
  have p: "list_all (\<lambda>f. fixCounts f \<noteq> 0 \<and> strategyAttribute f \<noteq> None) (mgmtData bm)"
    using pinned by (auto simp: list_all_iff)
  show ?case
  proof (cases "int i = numPages bm - 1")
    case True
    have "frame_at bm (- 1) = Inl OutOfBounds" by (simp add: frame_at_def)
    then show ?thesis
      using f m True strat strategy_all_pinned [OF n ne p]
      by (auto simp: bindU_def)
  next
    case False
    then have "length (mgmtData bm) - 1 \<in> set rest"
      using Cons.prems(2) n i by auto
    then have "pinPage_loop w bm pn flag pnum rest = Inl OutOfBounds"
      using Cons.prems(1) by (intro Cons.IH) auto
    then show ?thesis using f m False by (simp add: bindU_def)
  qed
qed

text \<open>
  C2. In a pool in which every frame holds a page other than the requested one with
  fix count > 0, \<^verbatim>\<open>pinPage\<close> does not fail with an error code: the victim search
  \<^verbatim>\<open>strategyFIFOandLRU\<close> returns \<open>-1\<close>, and \<^verbatim>\<open>pinPage\<close> reads
  \<^verbatim>\<open>mgmtData[-1]\<close>, outside the frame array.
\<close>

theorem pinPage_all_pinned:
  assumes "numPages bm = int (length (mgmtData bm))" and "mgmtData bm \<noteq> []"
    and "strategy bm = RS_FIFO \<or> strategy bm = RS_LRU"
    and "list_all (\<lambda>f. fixCounts f > 0 \<and> strategyAttribute f \<noteq> None
                   \<and> pageNum f \<noteq> pn \<and> pageNum f \<noteq> NO_PAGE) (mgmtData bm)"
  shows "pinPage w bm h pn = Inl OutOfBounds"
proof -
  have p: "list_all (\<lambda>f. fixCounts f \<noteq> 0 \<and> strategyAttribute f \<noteq> None
                   \<and> pageNum f \<noteq> pn \<and> pageNum f \<noteq> NO_PAGE) (mgmtData bm)"
    using assms(4) by (auto simp: list_all_iff)
  have "pinPage_loop w bm pn 0 (- 1) [0..<nat (numPages bm)] = Inl OutOfBounds"
    using assms(1,2) by (intro pinPage_loop_all_pinned [OF assms(1,2,3) p]) auto
  then show ?thesis by (simp add: pinPage_def bindU_def)
qed

theorem pinPage_all_pinned_witness:
  "pinPage world0 pool_fifo1 handle0 0
     = Inr (RC_OK, world_pinned1, pool_pinned1,
            \<lparr>pageNum = 0, data = Some 0, dirty = False, fixCounts = 1,
             strategyAttribute = None\<rparr>)
   \<and> numPages pool_pinned1 = int (length (mgmtData pool_pinned1))
   \<and> mgmtData pool_pinned1 \<noteq> []
   \<and> (strategy pool_pinned1 = RS_FIFO \<or> strategy pool_pinned1 = RS_LRU)
   \<and> list_all (\<lambda>f. fixCounts f > 0 \<and> strategyAttribute f \<noteq> None
                   \<and> pageNum f \<noteq> 1 \<and> pageNum f \<noteq> NO_PAGE) (mgmtData pool_pinned1)
   \<and> pinPage world_pinned1 pool_pinned1 handle0 1 = Inl OutOfBounds"
  using pinPage_all_pinned [of pool_pinned1 1 world_pinned1 handle0]
  by (simp add: pool_pinned1_def world_pinned1_def pool_fifo1_def run_defs)

section \<open>Integers in memory: properties\<close>

lemma int_bytes_eq:
  "int_bytes x = [word_of_int x, word_of_int (x div 256), word_of_int (x div 65536),
                  word_of_int (x div 16777216)]"
  by (simp add: int_bytes_def)

lemma length_int_bytes [simp]: "length (int_bytes x) = 4"
  by (simp add: int_bytes_def)

lemma uint_byte_of_int: "uint (word_of_int x :: byte) = x mod 256"
  by (simp add: uint_word_of_int take_bit_eq_mod)

lemma mod_2_32_bytes:
  "(x::int) mod 4294967296
     = x mod 256 + 256 * (x div 256 mod 256) + 65536 * (x div 65536 mod 256)
       + 16777216 * (x div 16777216 mod 256)"
proof -
  have d2: "x div 65536 = x div 256 div 256"
    using zdiv_zmult2_eq [of 256 x 256] by simp
  have d3: "x div 16777216 = x div 256 div 256 div 256"
    using zdiv_zmult2_eq [of 256 x 65536] zdiv_zmult2_eq [of 256 "x div 256" 256] d2 by simp
  have a: "x mod 4294967296 = 256 * (x div 256 mod 16777216) + x mod 256"
    using zmod_zmult2_eq [of 16777216 x 256] by simp
  have b: "x div 256 mod 16777216 = 256 * (x div 256 div 256 mod 65536) + x div 256 mod 256"
    using zmod_zmult2_eq [of 65536 "x div 256" 256] by simp
  have c: "x div 256 div 256 mod 65536
           = 256 * (x div 256 div 256 div 256 mod 256) + x div 256 div 256 mod 256"
    using zmod_zmult2_eq [of 256 "x div 256 div 256" 256] by simp
  show ?thesis
    unfolding a b c d2 d3 by simp
qed

lemma uint_sum_int_bytes:
  "uint (int_bytes x ! 0) + 256 * uint (int_bytes x ! 1) + 65536 * uint (int_bytes x ! 2)
     + 16777216 * uint (int_bytes x ! 3) = x mod 4294967296"
proof -
  have "uint (int_bytes x ! 0) + 256 * uint (int_bytes x ! 1) + 65536 * uint (int_bytes x ! 2)
     + 16777216 * uint (int_bytes x ! 3)
     = x mod 256 + 256 * (x div 256 mod 256) + 65536 * (x div 65536 mod 256)
       + 16777216 * (x div 16777216 mod 256)"
    by (simp add: int_bytes_eq uint_byte_of_int del: uint_word_of_int_eq)
  then show ?thesis by (simp only: mod_2_32_bytes)
qed

lemma bytes_int_int_bytes:
  assumes "INT_MIN \<le> x" "x \<le> INT_MAX"
  shows "bytes_int (int_bytes x) = x"
proof -
  have e: "bytes_int (int_bytes x)
        = (if x mod 4294967296 < 2147483648 then x mod 4294967296
           else x mod 4294967296 - 4294967296)"
    unfolding bytes_int_def uint_sum_int_bytes Let_def by (rule refl)
  show ?thesis
  proof (cases "0 \<le> x")
    case True
    then have "x mod 4294967296 = x"
      using assms by (intro mod_pos_pos_trivial) (simp_all add: INT_MAX_def)
    then show ?thesis using assms e by (simp add: INT_MAX_def)
  next
    case False
    then have "(x + 4294967296) mod 4294967296 = x + 4294967296"
      using assms by (intro mod_pos_pos_trivial) (simp_all add: INT_MIN_def)
    then have "x mod 4294967296 = x + 4294967296" by simp
    then show ?thesis using False e assms by (simp add: INT_MIN_def)
  qed
qed

lemma memcpy_from_memcpy_to_same:
  "memcpy_to buf off src = Inr b \<Longrightarrow> memcpy_from b off (length src) = Inr src"
  by (auto simp: memcpy_to_def memcpy_from_def split: if_split_asm)

lemma memcpy_to_nth_other:
  assumes "memcpy_to buf off src = Inr b" and "k < nat off \<or> nat off + length src \<le> k"
  shows "b ! k = buf ! k"
proof -
  from assms(1) have b: "b = take (nat off) buf @ src @ drop (nat off + length src) buf"
    and r: "0 \<le> off" "nat off + length src \<le> length buf"
    by (auto simp: memcpy_to_def split: if_split_asm)
  show ?thesis
  proof (cases "k < nat off")
    case True
    then show ?thesis using r by (simp add: b nth_append)
  next
    case False
    with assms(2) have k: "nat off + length src \<le> k" by simp
    have l: "min (length buf) (nat off) = nat off" using r by simp
    have k1: "\<not> k < nat off" and k2: "\<not> k - nat off < length src" using k by arith+
    have "b ! k = drop (nat off + length src) buf ! (k - nat off - length src)"
      unfolding b using k1 k2 by (simp add: nth_append l diff_diff_left)
    also have "\<dots> = buf ! (nat off + length src + (k - nat off - length src))"
      using r by simp
    also have "nat off + length src + (k - nat off - length src) = k"
      using k by simp
    finally show ?thesis .
  qed
qed

lemma memcpy_from_memcpy_to_other:
  assumes "memcpy_to buf off src = Inr b"
    and "off' + int n \<le> off \<or> off + int (length src) \<le> off'"
  shows "memcpy_from b off' n = memcpy_from buf off' n"
proof -
  have len: "length b = length buf" using assms(1) by (rule memcpy_to_length)
  have off: "0 \<le> off" using assms(1) by (auto simp: memcpy_to_def split: if_split_asm)
  show ?thesis
  proof (cases "0 \<le> off' \<and> off' + int n \<le> int (length buf)")
    case False
    then show ?thesis by (auto simp: memcpy_from_def len)
  next
    case True
    have "take n (drop (nat off') b) = take n (drop (nat off') buf)"
    proof (rule nth_equalityI)
      show "length (take n (drop (nat off') b)) = length (take n (drop (nat off') buf))"
        by (simp add: len)
    next
      fix i assume "i < length (take n (drop (nat off') b))"
      then have i: "i < n" "nat off' + i < length buf" using len by auto
      have "nat off' + i < nat off \<or> nat off + length src \<le> nat off' + i"
        using assms(2) True i off by auto
      then have "b ! (nat off' + i) = buf ! (nat off' + i)"
        using assms(1) by (intro memcpy_to_nth_other)
      then show "take n (drop (nat off') b) ! i = take n (drop (nat off') buf) ! i"
        using i len by simp
    qed
    then show ?thesis using True by (simp add: memcpy_from_def len)
  qed
qed

lemma read_int_write_int_same:
  "write_int buf off x = Inr b \<Longrightarrow> INT_MIN \<le> x \<Longrightarrow> x \<le> INT_MAX \<Longrightarrow> read_int b off = Inr x"
  using memcpy_from_memcpy_to_same [of buf off "int_bytes x" b]
  by (simp add: write_int_def read_int_def bindU_def bytes_int_int_bytes)

lemma read_int_write_int_other:
  "write_int buf off x = Inr b \<Longrightarrow> off' + 4 \<le> off \<or> off + 4 \<le> off' \<Longrightarrow>
     read_int b off' = read_int buf off'"
  using memcpy_from_memcpy_to_other [of buf off "int_bytes x" b off' 4]
  by (simp add: write_int_def read_int_def)

lemma read_int_memcpy_to_other:
  "memcpy_to buf off src = Inr b \<Longrightarrow> off' + 4 \<le> off \<or> off + int (length src) \<le> off' \<Longrightarrow>
     read_int b off' = read_int buf off'"
  using memcpy_from_memcpy_to_other [of buf off src b off' 4]
  by (simp add: read_int_def)

lemma write_int_length: "write_int buf off x = Inr b \<Longrightarrow> length b = length buf"
  by (simp add: write_int_def memcpy_to_length)

lemma write_int_in_bounds:
  "0 \<le> off \<Longrightarrow> off + 4 \<le> int (length buf) \<Longrightarrow> \<exists>b. write_int buf off x = Inr b"
  by (simp add: write_int_def memcpy_to_def)

section \<open>Record manager: properties\<close>

lemma fill_metadata_ok:
  "length blk = 4096 \<Longrightarrow> \<forall>i \<in> set is. i < 512 \<Longrightarrow>
     \<exists>b. fill_metadata tot blk is = Inr b \<and> length b = 4096"
proof (induction "is" arbitrary: blk)
  case Nil
  then show ?case by simp
next
  case (Cons i rest)
  have i: "i < 512" using Cons.prems(2) by simp
  let ?cur = "if i = metadataEntriesPerPage - 1 then tot - 1
              else tot - int metadataEntriesPerPage + int i"
  obtain b1 where b1: "write_int blk (int i * 2 * 4) ?cur = Inr b1"
    using write_int_in_bounds [of "int i * 2 * 4" blk ?cur] Cons.prems(1) i by auto
  have l1: "length b1 = 4096" using write_int_length [OF b1] Cons.prems(1) by simp
  obtain b2 where b2: "write_int b1 (int i * 2 * 4 + 4) (- 1) = Inr b2"
    using write_int_in_bounds [of "int i * 2 * 4 + 4" b1 "- 1"] l1 i by auto
  have l2: "length b2 = 4096" using write_int_length [OF b2] l1 by simp
  obtain b where "fill_metadata tot b2 rest = Inr b \<and> length b = 4096"
    using Cons.IH [OF l2] Cons.prems(2) by auto
  then show ?case using b1 b2 by (simp add: bindU_def Let_def)
qed

lemma fill_metadata_frame:
  "fill_metadata tot blk is = Inr b \<Longrightarrow>
     \<forall>i \<in> set is. off + 4 \<le> int i * 8 \<or> int i * 8 + 8 \<le> off \<Longrightarrow>
     read_int b off = read_int blk off"
proof (induction "is" arbitrary: blk)
  case Nil
  then show ?case by simp
next
  case (Cons i rest)
  let ?cur = "if i = metadataEntriesPerPage - 1 then tot - 1
              else tot - int metadataEntriesPerPage + int i"
  from Cons.prems(1) obtain b1 b2 where
    b1: "write_int blk (int i * 2 * 4) ?cur = Inr b1" and
    b2: "write_int b1 (int i * 2 * 4 + 4) (- 1) = Inr b2" and
    r: "fill_metadata tot b2 rest = Inr b"
    by (auto simp: bindU_Inr_iff Let_def)
  have far: "off + 4 \<le> int i * 8 \<or> int i * 8 + 8 \<le> off" using Cons.prems(2) by simp
  have "read_int b off = read_int b2 off"
    using r Cons.prems(2) by (intro Cons.IH) auto
  also have "\<dots> = read_int b1 off"
    using b2 far by (intro read_int_write_int_other) auto
  also have "\<dots> = read_int blk off"
    using b1 far by (intro read_int_write_int_other) auto
  finally show ?case .
qed

lemma fill_metadata_entry:
  assumes "fill_metadata tot blk is = Inr b" and "distinct is" and "k \<in> set is"
    and "INT_MIN + 512 \<le> tot" and "tot \<le> INT_MAX" and "k < 512"
  shows "read_int b (int k * 8 + 4) = Inr (- 1)
       \<and> read_int b (int k * 8) = Inr (if k = 511 then tot - 1 else tot - 512 + int k)"
  using assms(1,2,3)
proof (induction "is" arbitrary: blk)
  case Nil
  then show ?case by simp
next
  case (Cons i rest)
  let ?cur = "if i = metadataEntriesPerPage - 1 then tot - 1
              else tot - int metadataEntriesPerPage + int i"
  from Cons.prems(1) obtain b1 b2 where
    b1: "write_int blk (int i * 2 * 4) ?cur = Inr b1" and
    b2: "write_int b1 (int i * 2 * 4 + 4) (- 1) = Inr b2" and
    r: "fill_metadata tot b2 rest = Inr b"
    by (auto simp: bindU_Inr_iff Let_def)
  show ?case
  proof (cases "k = i")
    case False
    then show ?thesis using Cons r by auto
  next
    case True
    have notin: "\<forall>j \<in> set rest. j \<noteq> k" using Cons.prems(2) True by auto
    have cur: "?cur = (if k = 511 then tot - 1 else tot - 512 + int k)"
      using True by (simp add: metadataEntriesPerPage_def PAGE_SIZE_def)
    have rng: "INT_MIN \<le> ?cur" "?cur \<le> INT_MAX"
      using assms(4,5,6) True by (auto simp: metadataEntriesPerPage_def PAGE_SIZE_def INT_MIN_def INT_MAX_def)
    have sep: "\<And>j. j \<noteq> k \<Longrightarrow>
                 (int k * 8 + 4 + 4 \<le> int j * 8 \<or> int j * 8 + 8 \<le> int k * 8 + 4)
               \<and> (int k * 8 + 4 \<le> int j * 8 \<or> int j * 8 + 8 \<le> int k * 8)"
      by arith
    have f1: "read_int b (int k * 8 + 4) = read_int b2 (int k * 8 + 4)"
      using notin sep by (intro fill_metadata_frame [OF r]) blast
    have f2: "read_int b (int k * 8) = read_int b2 (int k * 8)"
      using notin sep by (intro fill_metadata_frame [OF r]) blast
    have "read_int b2 (int k * 8 + 4) = Inr (- 1)"
      using b2 True by (intro read_int_write_int_same) (auto simp: INT_MIN_def INT_MAX_def algebra_simps)
    moreover have "read_int b2 (int k * 8) = read_int b1 (int k * 8)"
      using b2 True by (intro read_int_write_int_other) auto
    moreover have "read_int b1 (int k * 8) = Inr ?cur"
      using b1 True rng by (intro read_int_write_int_same) (auto simp: algebra_simps)
    ultimately show ?thesis using f1 f2 cur by simp
  qed
qed

lemma upt_metadataEntries: "[0..<metadataEntriesPerPage] = [0..<512]"
  by (simp add: metadataEntriesPerPage_def PAGE_SIZE_def)

lemma addPageMetadataBlock_result:
  assumes tot: "0 \<le> totalNumPages fh" "totalNumPages fh < INT_MAX"
  shows "\<exists>blk. fill_metadata (totalNumPages fh + 1) (replicate 4096 0) [0..<512] = Inr blk
           \<and> length blk = 4096
           \<and> addPageMetadataBlock fs fh
               = Inr (RC_OK,
                      fs(fileName fh \<mapsto>
                           fwrite_at ((case fs (fileName fh) of None \<Rightarrow> [] | Some f \<Rightarrow> f)
                                        @ replicate 4096 0)
                             (nat (totalNumPages fh) * 4096) blk),
                      fh\<lparr>totalNumPages := totalNumPages fh + 1,
                         curPagePos := totalNumPages fh\<rparr>)"
proof -
  obtain blk where blk: "fill_metadata (totalNumPages fh + 1) (replicate 4096 0) [0..<512] = Inr blk"
    and len: "length blk = 4096"
    using fill_metadata_ok [of "replicate 4096 0" "[0..<512]" "totalNumPages fh + 1"] by auto
  have m: "nat (totalNumPages fh * 4096) = nat (totalNumPages fh) * 4096"
    using tot by (simp add: nat_mult_distrib)
  have "addPageMetadataBlock fs fh
               = Inr (RC_OK,
                      fs(fileName fh \<mapsto>
                           fwrite_at ((case fs (fileName fh) of None \<Rightarrow> [] | Some f \<Rightarrow> f)
                                        @ replicate 4096 0)
                             (nat (totalNumPages fh) * 4096) blk),
                      fh\<lparr>totalNumPages := totalNumPages fh + 1,
                         curPagePos := totalNumPages fh\<rparr>)"
    using tot blk len m
    by (simp add: addPageMetadataBlock_def appendEmptyBlock_def writeBlock_def ensureCapacity_def
          bindU_def c_int_def INT_MIN_def INT_MAX_def PAGE_SIZE_def upt_metadataEntries RC_defs
          Let_def)
  then show ?thesis using blk len by blast
qed

lemma createTable_result:
  assumes fit: "length (serializeSchema schema) \<le> 4080"
    and io: "io name = IoOk"
    and size: "getRecordSize schema = Inr sz"
  shows "\<exists>blk. fill_metadata 2 (replicate 4096 0) [0..<512] = Inr blk \<and> length blk = 4096
           \<and> createTable io fs name schema = Inr (RC_OK, fs(name \<mapsto> header_page schema @ blk))"
proof -
  let ?fs1 = "fs(name \<mapsto> replicate 4096 (0::byte))"
  let ?fh = "\<lparr>fileName = name, totalNumPages = 1, curPagePos = 0\<rparr>"
  let ?fs2 = "fs(name \<mapsto> header_page schema)"
  have hl: "length (header_page schema) = 4096"
    using fit by (simp add: header_page_def)
  have sz: "(int (length (serializeSchema schema)) + 4 * 4 - 1) div PAGE_SIZE + 1 = 1"
    using fit by (simp add: PAGE_SIZE_def)
  have ss: "sizeSum (attrs schema) = sz"
    using getRecordSize_Inr [OF size] by simp
  obtain blk where blk: "fill_metadata 2 (replicate 4096 0) [0..<512] = Inr blk"
    and len: "length blk = 4096"
    and add: "addPageMetadataBlock ?fs2 (?fh\<lparr>curPagePos := 0\<rparr>)
              = Inr (RC_OK, ?fs2(name \<mapsto> fwrite_at (header_page schema @ replicate 4096 0) 4096 blk),
                     ?fh\<lparr>totalNumPages := 2, curPagePos := 1\<rparr>)"
    using addPageMetadataBlock_result [of "?fh\<lparr>curPagePos := 0\<rparr>" ?fs2]
    by (auto simp: INT_MAX_def)
  have fw: "fwrite_at (header_page schema @ replicate 4096 0) 4096 blk = header_page schema @ blk"
    using hl len by (simp add: fwrite_at_def)
  let ?rs = "c_div sz 256"
  have w0: "write_int (replicate 4096 0) 0 1 = Inr (int_bytes 1 @ replicate 4092 0)"
    by (simp add: write_int_def memcpy_to_def)
  have w1: "write_int (int_bytes 1 @ replicate 4092 0) 4 ?rs
            = Inr (int_bytes 1 @ int_bytes ?rs @ replicate 4088 0)"
    by (simp add: write_int_def memcpy_to_def)
  have w2: "write_int (int_bytes 1 @ int_bytes ?rs @ replicate 4088 0) 8 256
            = Inr (int_bytes 1 @ int_bytes ?rs @ int_bytes 256 @ replicate 4084 0)"
    by (simp add: write_int_def memcpy_to_def)
  have w3: "write_int (int_bytes 1 @ int_bytes ?rs @ int_bytes 256 @ replicate 4084 0) 12 0
            = Inr (int_bytes 1 @ int_bytes ?rs @ int_bytes 256 @ int_bytes 0 @ replicate 4080 0)"
    by (simp add: write_int_def memcpy_to_def)
  have w4: "memcpy_to (int_bytes 1 @ int_bytes ?rs @ int_bytes 256 @ int_bytes 0 @ replicate 4080 0)
              16 (serializeSchema schema) = Inr (header_page schema)"
    using fit by (simp add: memcpy_to_def header_page_def ss)
  have wb: "writeBlock 0 ?fs1 ?fh (header_page schema) = Inr (RC_OK, ?fs2, ?fh\<lparr>curPagePos := 0\<rparr>)"
    using hl by (simp add: writeBlock_def ensureCapacity_def bindU_def c_int_def INT_MIN_def
        INT_MAX_def PAGE_SIZE_def fwrite_at_def RC_defs)
  have "createTable io fs name schema = Inr (RC_OK, fs(name \<mapsto> header_page schema @ blk))"
    unfolding createTable_def createPageFile_def openPageFile_def
    using sz add io size
    by (simp add: PAGE_SIZE_def Let_def w0 w1 w2 w3 w4 wb bindU_def closePageFile_def fw RC_OK_def)
  then show ?thesis using blk len by blast
qed

lemma createTable_overflow:
  assumes "4080 < length (serializeSchema schema)" and "io name = IoOk"
    and "getRecordSize schema = Inr sz"
  shows "createTable io fs name schema = Inl OutOfBounds"
  unfolding createTable_def createPageFile_def openPageFile_def
  using assms
  by (simp add: PAGE_SIZE_def Let_def write_int_def memcpy_to_def bindU_def RC_OK_def)

lemma createTable_size_overflow:
  assumes "getRecordSize schema = Inl e" and "io name = IoOk"
  shows "createTable io fs name schema = Inl e"
  unfolding createTable_def createPageFile_def openPageFile_def
  using assms
  by (simp add: PAGE_SIZE_def Let_def bindU_def RC_OK_def)

lemma createTable_io_fail:
  assumes "io name \<noteq> IoOk"
  shows "createTable io fs name schema
           = Inr (RC_CREATE_FILE_FAIL, if io name = OpenFails then fs else fs(name := None))"
  using assms
  by (cases "io name") (simp_all add: createTable_def createPageFile_def RC_defs)

lemma c_div_256_range:
  assumes "INT_MIN \<le> x" "x \<le> INT_MAX"
  shows "INT_MIN \<le> c_div x 256 \<and> c_div x 256 \<le> INT_MAX"
proof (cases "0 \<le> x")
  case True
  then have "c_div x 256 = x div 256 \<or> c_div x 256 = 0"
    by (cases "x = 0") (auto simp: c_div_def)
  moreover have "0 \<le> x div 256" "x div 256 \<le> x" using True by (simp_all add: zdiv_mono2 div_by_1 [symmetric] del: div_by_1) 
  ultimately show ?thesis using assms True by (auto simp: INT_MIN_def INT_MAX_def)
next
  case False
  then have "c_div x 256 = - ((- x) div 256)" by (simp add: c_div_def)
  moreover have "0 \<le> (- x) div 256" "(- x) div 256 \<le> - x" using False by (simp_all add: zdiv_mono2 div_by_1 [symmetric] del: div_by_1)
  ultimately show ?thesis using assms False by (auto simp: INT_MIN_def INT_MAX_def)
qed

lemma header_page_fields:
  "read_int (header_page schema @ blk) 4
     = Inr (bytes_int (int_bytes (c_div (sizeSum (attrs schema)) 256)))"
  "read_int (header_page schema @ blk) 8 = Inr (bytes_int (int_bytes 256))"
  by (simp_all add: header_page_def read_int_def memcpy_from_def bindU_def)

text \<open>
  C3 (as amended). Whenever \<^verbatim>\<open>createTable\<close> returns \<^verbatim>\<open>RC_OK\<close>, the page file could be
  created, \<^verbatim>\<open>getRecordSize(schema)\<close> was computed without overflow, and the table header
  (page 0) holds at byte offset 4 the value \<^verbatim>\<open>getRecordSize(schema) / 256\<close>, the record
  size in whole units of 256 bytes, and at byte offset 8 the slot size 256. When the
  page file cannot be created, \<^verbatim>\<open>createTable\<close> returns \<^verbatim>\<open>RC_CREATE_FILE_FAIL\<close> and has
  written no header: the file system is as it was, or without the file when the first
  write failed.
\<close>

theorem createTable_header_field:
  "(createTable io fs name schema = Inr (RC_OK, fs') \<longrightarrow>
      io name = IoOk
      \<and> (\<exists>sz file. getRecordSize schema = Inr sz \<and> fs' name = Some file
            \<and> read_int file 4 = Inr (c_div sz 256)
            \<and> read_int file (2 * 4) = Inr 256))
   \<and> (io name \<noteq> IoOk \<longrightarrow>
        createTable io fs name schema
          = Inr (RC_CREATE_FILE_FAIL, if io name = OpenFails then fs else fs(name := None)))"
proof (intro conjI impI)
  assume run: "createTable io fs name schema = Inr (RC_OK, fs')"
  show io: "io name = IoOk"
  proof (rule ccontr)
    assume "io name \<noteq> IoOk"
    then have "createTable io fs name schema
                 = Inr (RC_CREATE_FILE_FAIL, if io name = OpenFails then fs else fs(name := None))"
      by (rule createTable_io_fail)
    with run show False by (simp add: RC_defs)
  qed
  show "\<exists>sz file. getRecordSize schema = Inr sz \<and> fs' name = Some file
            \<and> read_int file 4 = Inr (c_div sz 256)
            \<and> read_int file (2 * 4) = Inr 256"
  proof (cases "getRecordSize schema")
    case (Inl e)
    then have "createTable io fs name schema = Inl e"
      using io by (rule createTable_size_overflow)
    with run show ?thesis by simp
  next
    case (Inr sz)
    show ?thesis
    proof (cases "length (serializeSchema schema) \<le> 4080")
      case True
      then obtain blk where
        "createTable io fs name schema = Inr (RC_OK, fs(name \<mapsto> header_page schema @ blk))"
        using createTable_result [of schema io name sz fs] io Inr by blast
      with run have fs': "fs' name = Some (header_page schema @ blk)"
        by auto
      have ss: "sizeSum (attrs schema) = sz" using getRecordSize_Inr [OF Inr] by simp
      have "bytes_int (int_bytes (c_div sz 256)) = c_div sz 256"
        using c_div_256_range [of sz] getRecordSize_range [OF Inr]
        by (intro bytes_int_int_bytes) auto
      moreover have "bytes_int (int_bytes 256) = 256"
        by (intro bytes_int_int_bytes) (simp_all add: INT_MIN_def INT_MAX_def)
      ultimately show ?thesis using fs' Inr ss by (simp add: header_page_fields)
    next
      case False
      then have "createTable io fs name schema = Inl OutOfBounds"
        using io Inr by (intro createTable_overflow) simp_all
      with run show ?thesis by simp
    qed
  qed
next
  assume "io name \<noteq> IoOk"
  then show "createTable io fs name schema
          = Inr (RC_CREATE_FILE_FAIL, if io name = OpenFails then fs else fs(name := None))"
    by (rule createTable_io_fail)
qed

lemma serializeSchema_schema_ab:
  "serializeSchema schema_ab = bytes_of ''Schema with <2> attributes (a: INT, b: STRING[4]) with keys (a)''"
  by (simp add: serializeSchema_def schema_ab_def bytes_of_def numAttr_def show_int_def
        show_nat.simps attr_text_def byte_of_char_def)

lemma getRecordSize_schema_ab: "getRecordSize schema_ab = Inr 8"
  by (simp add: getRecordSize_def schema_ab_def bindU_def c_int_def INT_MIN_def INT_MAX_def)

lemma createTable_schema_ab:
  "\<exists>blk. createTable (\<lambda>n. IoOk) Map.empty ''r'' schema_ab
           = Inr (RC_OK, Map.empty(''r'' \<mapsto> header_page schema_ab @ blk))"
proof -
  have "length (serializeSchema schema_ab) \<le> 4080"
    by (simp add: serializeSchema_schema_ab bytes_of_def)
  then show ?thesis
    using createTable_result [of schema_ab "\<lambda>n. IoOk" "''r''" 8 Map.empty]
      getRecordSize_schema_ab
    by blast
qed

text \<open>
  C3 as stated fails: for the schema \<open>(a: INT, b: STRING[4])\<close>, whose records have 8
  bytes, \<^verbatim>\<open>createTable\<close> returns \<^verbatim>\<open>RC_OK\<close> and the value at offset 4 of the header
  is 0, while \<^verbatim>\<open>PAGE_SIZE / 256\<close> is 16.
\<close>

theorem createTable_header_field_counterexample:
  "fst (projr (createTable (\<lambda>n. IoOk) Map.empty ''r'' schema_ab)) = RC_OK
   \<and> read_int (the (snd (projr (createTable (\<lambda>n. IoOk) Map.empty ''r'' schema_ab)) ''r'')) 4 = Inr 0
   \<and> PAGE_SIZE div 256 = 16"
proof -
  obtain blk where
    "createTable (\<lambda>n. IoOk) Map.empty ''r'' schema_ab = Inr (RC_OK, Map.empty(''r'' \<mapsto> header_page schema_ab @ blk))"
    using createTable_schema_ab by blast
  moreover have "bytes_int (int_bytes 0) = 0"
    by (intro bytes_int_int_bytes) (simp_all add: INT_MIN_def INT_MAX_def)
  moreover have "sizeSum (attrs schema_ab) = 8"
    by (simp add: schema_ab_def)
  ultimately show ?thesis
    by (simp add: header_page_fields c_div_def PAGE_SIZE_def)
qed

theorem createTable_header_field_witness:
  "createTable (\<lambda>n. IoOk) Map.empty ''r'' schema_ab
     = Inr (RC_OK, snd (projr (createTable (\<lambda>n. IoOk) Map.empty ''r'' schema_ab)))
   \<and> getRecordSize schema_ab = Inr 8
   \<and> (\<exists>file. snd (projr (createTable (\<lambda>n. IoOk) Map.empty ''r'' schema_ab)) ''r'' = Some file
           \<and> read_int file 4 = Inr 0 \<and> read_int file (2 * 4) = Inr 256)
   \<and> createTable (\<lambda>n. OpenFails) Map.empty ''r'' schema_ab = Inr (RC_CREATE_FILE_FAIL, Map.empty)
   \<and> createTable (\<lambda>n. WriteFails) [''r'' \<mapsto> [1]] ''r'' schema_ab
       = Inr (RC_CREATE_FILE_FAIL, Map.empty)"
proof -
  let ?fs = "snd (projr (createTable (\<lambda>n. IoOk) Map.empty ''r'' schema_ab))"
  obtain blk where
    "createTable (\<lambda>n. IoOk) Map.empty ''r'' schema_ab = Inr (RC_OK, Map.empty(''r'' \<mapsto> header_page schema_ab @ blk))"
    using createTable_schema_ab by blast
  then have ok: "createTable (\<lambda>n. IoOk) Map.empty ''r'' schema_ab = Inr (RC_OK, ?fs)"
    by simp
  have "\<exists>sz file. getRecordSize schema_ab = Inr sz \<and> ?fs ''r'' = Some file
            \<and> read_int file 4 = Inr (c_div sz 256) \<and> read_int file (2 * 4) = Inr 256"
    using createTable_header_field [of "\<lambda>n. IoOk" Map.empty "''r''" schema_ab ?fs] ok
    by blast
  then have hdr: "\<exists>file. ?fs ''r'' = Some file
            \<and> read_int file 4 = Inr 0 \<and> read_int file (2 * 4) = Inr 256"
    by (simp add: getRecordSize_schema_ab c_div_def)
  have f1: "createTable (\<lambda>n. OpenFails) Map.empty ''r'' schema_ab
              = Inr (RC_CREATE_FILE_FAIL, Map.empty)"
    using createTable_header_field [of "\<lambda>n. OpenFails" Map.empty "''r''" schema_ab]
    by simp
  have f2: "createTable (\<lambda>n. WriteFails) [''r'' \<mapsto> [1]] ''r'' schema_ab
              = Inr (RC_CREATE_FILE_FAIL, Map.empty)"
    using createTable_header_field [of "\<lambda>n. WriteFails" "[''r'' \<mapsto> [1]]" "''r''" schema_ab]
    by simp
  show ?thesis
    using ok hdr f1 f2 getRecordSize_schema_ab by blast
qed

lemma sum_list_update_int:
  "i < length xs \<Longrightarrow> sum_list (xs[i := x]) = sum_list xs - xs ! i + (x::int)"
proof (induction xs arbitrary: i)
  case Nil
  then show ?case by simp
next
  case (Cons a xs)
  then show ?case by (cases i) auto
qed

lemma fcs_sum_set_frame:
  "frame_at bm i = Inr f \<Longrightarrow>
     sum_list (map fixCounts (mgmtData (set_frame bm i g)))
       = sum_list (map fixCounts (mgmtData bm)) - fixCounts f + fixCounts g"
  by (auto dest!: frame_at_Inr simp: set_frame_def map_update sum_list_update_int)

lemma mgmtData_set_frame_upd [simp]:
  "mgmtData ((set_frame bm i g)\<lparr>timer := t\<rparr>) = mgmtData (set_frame bm i g)"
  "mgmtData ((set_frame bm i g)\<lparr>numReadIO := r\<rparr>) = mgmtData (set_frame bm i g)"
  by simp_all

lemma set_frame_set_frame:
  "set_frame (set_frame bm i f) i g = set_frame bm i g"
  by (simp add: set_frame_def)

lemma pinPage_fix_sum:
  assumes run: "pinPage w bm h pn = Inr (rc, w', bm', h')" and h: "data h = None" and h': "data h' \<noteq> None"
  shows "sum_list (map fixCounts (mgmtData bm')) = sum_list (map fixCounts (mgmtData bm)) + 1"
proof -
  from run obtain w1 bm1 flag pnum where
    loop: "pinPage_loop w bm pn 0 (- 1) [0..<nat (numPages bm)] = Inr (w1, bm1, flag, pnum)"
    by (auto simp: pinPage_def bindU_Inr_iff)
  have eq: "map fixCounts (mgmtData bm1) = map fixCounts (mgmtData bm)"
    using loop by (rule fcs_pinPage_loop)
  consider "flag = 1" | "flag = 2" | "flag \<noteq> 1 \<and> flag \<noteq> 2" by blast
  then show ?thesis
  proof cases
    case 1
    with run loop obtain f fc where f: "frame_at bm1 pnum = Inr f" and fc: "c_int (fixCounts f + 1) = Inr fc"
      and bm': "mgmtData bm' = mgmtData (set_frame bm1 pnum (f\<lparr>fixCounts := fc, pageNum := pn\<rparr>))
              \<or> mgmtData bm' = mgmtData (set_frame bm1 pnum (f\<lparr>fixCounts := fc, pageNum := pn,
                                       strategyAttribute := Some (timer bm1)\<rparr>))"
      by (auto simp: pinPage_def bindU_Inr_iff case_option_Inr_iff Let_def set_frame_def
            split: if_split_asm)
    have "fc = fixCounts f + 1" using fc by (rule c_int_Inr)
    then show ?thesis using bm' f eq by (auto simp: fcs_sum_set_frame)
  next
    case 2
    with run loop obtain f fc where f: "frame_at bm1 pnum = Inr f" and fc: "c_int (fixCounts f + 1) = Inr fc"
      and bm': "bm' = set_frame bm1 pnum (f\<lparr>fixCounts := fc\<rparr>)"
      by (auto simp: pinPage_def bindU_Inr_iff Let_def)
    have "fc = fixCounts f + 1" using fc by (rule c_int_Inr)
    then show ?thesis using bm' f eq by (simp add: fcs_sum_set_frame)
  next
    case 3
    with run loop have "h' = h" by (auto simp: pinPage_def bindU_Inr_iff)
    with h h' show ?thesis by simp
  qed
qed

lemma page_buf_data: "page_buf w h = Inr buf \<Longrightarrow> data h \<noteq> None"
  by (auto simp: page_buf_def split: option.split_asm)

text \<open>
  C8. Whenever \<^verbatim>\<open>getRecord\<close> returns \<^verbatim>\<open>RC_RM_RECORD_NOT_EXIST\<close>, the pool is left as
  its \<^verbatim>\<open>pinPage\<close> left it, without the matching \<^verbatim>\<open>unpinPage\<close>: the sum of the fix
  counts is one more than before the call, so the fix counts are not those before it.
\<close>

theorem getRecord_not_exist_keeps_pin:
  assumes "getRecord w table rid out = Inr (RC_RM_RECORD_NOT_EXIST, w', table', out')"
  shows "sum_list (map fixCounts (mgmtData (tbl_bm table')))
           = sum_list (map fixCounts (mgmtData (tbl_bm table))) + 1
         \<and> map fixCounts (mgmtData (tbl_bm table')) \<noteq> map fixCounts (mgmtData (tbl_bm table))"
proof -
  from assms obtain recordSize rc w1 bm1 h1 pos flag where
    pin: "pinPage w (tbl_bm table) MAKE_PAGE_HANDLE (page rid) = Inr (rc, w1, bm1, h1)" and
    rd: "page_read w1 h1 pos 1 = Inr flag" and
    res: "(if hd flag = 0
           then Inr (RC_RM_RECORD_NOT_EXIST, w1, table\<lparr>tbl_bm := bm1\<rparr>, out\<lparr>id_r := rid\<rparr>)
           else if recordSize < 0
           then bindU (unpinPage bm1 h1) (\<lambda>(rc', bm2).
                  Inr (RC_INSUFFICIENT_MEMORY, w1, table\<lparr>tbl_bm := bm2\<rparr>, out\<lparr>id_r := rid\<rparr>))
           else bindU (page_read w1 h1 (pos + 1) (nat recordSize)) (\<lambda>bytes.
                bindU (unpinPage bm1 h1) (\<lambda>(rc', bm2).
                  Inr (RC_OK, w1, table\<lparr>tbl_bm := bm2\<rparr>, out\<lparr>id_r := rid, data_r := bytes\<rparr>))))
          = Inr (RC_RM_RECORD_NOT_EXIST, w', table', out')"
    by (auto simp: getRecord_def bindU_Inr_iff Let_def)
  have t': "table' = table\<lparr>tbl_bm := bm1\<rparr>"
    using res by (auto simp: bindU_Inr_iff RC_defs RC_INSUFFICIENT_MEMORY_def split: if_split_asm)
  have "data h1 \<noteq> None"
    using rd by (auto simp: page_read_def bindU_Inr_iff dest: page_buf_data)
  then have "sum_list (map fixCounts (mgmtData bm1))
             = sum_list (map fixCounts (mgmtData (tbl_bm table))) + 1"
    using pin by (intro pinPage_fix_sum [OF pin]) (simp add: MAKE_PAGE_HANDLE_def)
  then show ?thesis using t' by auto
qed

text \<open>
  C5. \<^verbatim>\<open>deleteRecord\<close> clears the bytes at \<^verbatim>\<open>PAGE_SIZE * id.slot\<close> of the page, where
  \<^verbatim>\<open>getRecord\<close>, \<^verbatim>\<open>insertRecord\<close> and \<^verbatim>\<open>updateRecord\<close> address the slot at
  \<^verbatim>\<open>256 * slot\<close>. For every slot but 0 that position is outside the page buffer, so
  \<^verbatim>\<open>deleteRecord\<close> does not return \<^verbatim>\<open>RC_OK\<close> with the record's live flag cleared:
  it writes outside the buffer.
\<close>

theorem deleteRecord_slot_nonzero:
  assumes pin: "pinPage w (tbl_bm table) MAKE_PAGE_HANDLE (page rid) = Inr (rc, w1, bm1, h1)"
    and buf: "page_buf w1 h1 = Inr buf" and len: "int (length buf) = PAGE_SIZE"
    and slot: "slot rid \<noteq> 0"
  shows "deleteRecord w table rid = Inl OutOfBounds
         \<or> deleteRecord w table rid = Inl SignedOverflow"
proof (cases "getRecordSize (tbl_schema table)")
  case (Inl e)
  then have "e = SignedOverflow" by (rule getRecordSize_Inl)
  then show ?thesis using Inl by (simp add: deleteRecord_def bindU_def)
next
  case sz: (Inr recordSize)
  show ?thesis
  proof (cases "recordSize < 0")
    case True
    then show ?thesis using sz by (simp add: deleteRecord_def bindU_def)
  next
    case False
    show ?thesis
    proof (cases "c_int (PAGE_SIZE * slot rid)")
      case (Inl e)
      then have "e = SignedOverflow" by (auto simp: c_int_def split: if_split_asm)
      then show ?thesis using Inl False pin sz by (simp add: deleteRecord_def bindU_def Let_def)
    next
      case (Inr pos)
      then have pos: "pos = PAGE_SIZE * slot rid" by (rule c_int_Inr)
      have "pos < 0 \<or> PAGE_SIZE \<le> pos" using slot pos by (auto simp: PAGE_SIZE_def)
      then have "memcpy_to buf pos (replicate (nat recordSize + 1) 0) = Inl OutOfBounds"
        using len by (auto simp: memcpy_to_def)
      then have "page_write w1 h1 pos (replicate (nat recordSize + 1) 0) = Inl OutOfBounds"
        using buf by (simp add: page_write_def bindU_def)
      then show ?thesis using False pin Inr sz by (simp add: deleteRecord_def bindU_def Let_def)
    qed
  qed
qed

lemma upt_10: "[0..<10] = [0, 1, 2, 3, 4, 5, 6, 7, 8, 9]"
  by (simp add: upt_rec)

lemma replicate_10: "replicate 10 x = [x, x, x, x, x, x, x, x, x, x]"
  by (simp add: eval_nat_numeral)

lemmas tbl_defs =
  table_ab_def world_tbl_def getRecord_def deleteRecord_def MAKE_PAGE_HANDLE_def
  page_read_def page_write_def page_buf_def memcpy_from_def memcpy_to_def getRecordSize_def
  schema_ab_def pool0_def bm_defs upt_10 replicate_10 RC_INSUFFICIENT_MEMORY_def Let_def
  rid_live_def rid_dead_def pinned_tbl_def got_dead_def

theorem getRecord_not_exist_keeps_pin_witness:
  "getRecord world_tbl table_ab rid_dead record_ab
     = Inr (RC_RM_RECORD_NOT_EXIST, fst (snd got_dead), fst (snd (snd got_dead)),
            snd (snd (snd got_dead)))
   \<and> map fixCounts (mgmtData (tbl_bm table_ab)) = [0, 0, 0, 0, 0, 0, 0, 0, 0, 0]
   \<and> map fixCounts (mgmtData (tbl_bm (fst (snd (snd got_dead)))))
       = [1, 0, 0, 0, 0, 0, 0, 0, 0, 0]
   \<and> sum_list (map fixCounts (mgmtData (tbl_bm (fst (snd (snd got_dead))))))
       = sum_list (map fixCounts (mgmtData (tbl_bm table_ab))) + 1"
  using getRecord_not_exist_keeps_pin
          [of world_tbl table_ab rid_dead record_ab "fst (snd got_dead)"
              "fst (snd (snd got_dead))" "snd (snd (snd got_dead))"]
  by (simp add: tbl_defs)

theorem deleteRecord_slot_nonzero_witness:
  "pinPage world_tbl (tbl_bm table_ab) MAKE_PAGE_HANDLE (page rid_live)
     = Inr (fst pinned_tbl, fst (snd pinned_tbl), fst (snd (snd pinned_tbl)),
            snd (snd (snd pinned_tbl)))
   \<and> page_buf (fst (snd pinned_tbl)) (snd (snd (snd pinned_tbl)))
       = Inr (replicate 256 0 @ [1, 2, 0, 0, 0, 101, 102, 103, 104] @ replicate 3831 0)
   \<and> int (length (replicate 256 (0::byte) @ [1, 2, 0, 0, 0, 101, 102, 103, 104]
                    @ replicate 3831 0)) = PAGE_SIZE
   \<and> slot rid_live \<noteq> 0
   \<and> page_read (fst (snd pinned_tbl)) (snd (snd (snd pinned_tbl))) (256 * slot rid_live) 1
       = Inr [1]
   \<and> deleteRecord world_tbl table_ab rid_live = Inl OutOfBounds"
  using deleteRecord_slot_nonzero
          [of world_tbl table_ab rid_live "fst pinned_tbl" "fst (snd pinned_tbl)"
              "fst (snd (snd pinned_tbl))" "snd (snd (snd pinned_tbl))"
              "replicate 256 0 @ [1, 2, 0, 0, 0, 101, 102, 103, 104] @ replicate 3831 0"]
  by (simp add: tbl_defs)

section \<open>Opening a table: properties\<close>

text \<open>
  A run of the key-counting loop that returns has found no comma from its cursor on;
  where there is one, the loop does not return.
\<close>

lemma count_keys_Some_no_comma:
  assumes "count_keys buf cursor k = Some y"
  shows "\<forall>q. strchr buf cursor (byte_of_char CHR '','') \<noteq> Inr (Some q)"
proof (rule count_keys.raw_induct
         [where P = "\<lambda>buf cursor k y. \<forall>q. strchr buf cursor (byte_of_char CHR '','') \<noteq> Inr (Some q)",
          OF _ assms])
  fix count_keys' buf cursor keyCount y
  assume IH: "\<And>buf cursor k y. count_keys' buf cursor k = Some y \<Longrightarrow>
                \<forall>q. strchr buf cursor (byte_of_char CHR '','') \<noteq> Inr (Some q)"
    and body: "(case strchr buf cursor (byte_of_char CHR '','') of
                  Inl e \<Rightarrow> Some (Inl e)
                | Inr None \<Rightarrow> Some (Inr keyCount)
                | Inr (Some q) \<Rightarrow> count_keys' buf cursor (wrap_int (keyCount + 1))) = Some y"
  show "\<forall>q. strchr buf cursor (byte_of_char CHR '','') \<noteq> Inr (Some q)"
  proof (cases "strchr buf cursor (byte_of_char CHR '','')")
    case (Inl e)
    then show ?thesis by simp
  next
    case (Inr r)
    show ?thesis
    proof (cases r)
      case None
      with Inr show ?thesis by simp
    next
      case (Some q)
      with Inr body have "count_keys' buf cursor (wrap_int (keyCount + 1)) = Some y"
        by simp
      then show ?thesis by (rule IH)
    qed
  qed
qed

lemma count_keys_diverges:
  "strchr buf cursor (byte_of_char CHR '','') = Inr (Some q) \<Longrightarrow> count_keys buf cursor k = None"
  using count_keys_Some_no_comma [of buf cursor k] by (cases "count_keys buf cursor k") auto

lemma serializeSchema_schema_2keys:
  "serializeSchema schema_2keys
     = bytes_of ''Schema with <2> attributes (a: INT, b: STRING[4]) with keys (a, b)''"
  by (simp add: serializeSchema_def schema_2keys_def bytes_of_def numAttr_def show_int_def
        show_nat.simps attr_text_def byte_of_char_def)

lemma getRecordSize_schema_2keys: "getRecordSize schema_2keys = Inr 8"
  by (simp add: getRecordSize_def schema_2keys_def bindU_def c_int_def INT_MIN_def INT_MAX_def)

lemma sizeSum_schema_2keys: "sizeSum (attrs schema_2keys) = 8"
  by (simp add: schema_2keys_def)

lemma header_2keys:
  "header_page schema_2keys = int_bytes 1 @ int_bytes 0 @ int_bytes 256 @ int_bytes 0
       @ bytes_of ''Schema with <2> attributes (a: INT, b: STRING[4]) with keys (a, b)''
       @ replicate 4014 0"
  by (simp add: header_page_def serializeSchema_schema_2keys sizeSum_schema_2keys c_div_def
        bytes_of_def)

lemma atoi_digits_zeros: "0 < n \<Longrightarrow> atoi_digits (replicate n 0) acc = Inr acc"
  by (cases n) simp_all

lemma strchr_l_zeros: "0 < n \<Longrightarrow> c \<noteq> 0 \<Longrightarrow> strchr_l (replicate n 0) c = Inr None"
  by (cases n) simp_all

lemma parse_attrs_numeral:
  "parse_attrs buf cursor (numeral k) = parse_attrs buf cursor (Suc (pred_numeral k))"
  by (simp only: numeral_eq_Suc)

lemma char_of_97: "char_of (97::nat) = CHR ''a''"
proof -
  have "(97::nat) = of_char CHR ''a''" by simp
  then show ?thesis by (simp only: char_of_char)
qed

lemma char_of_98: "char_of (98::nat) = CHR ''b''"
proof -
  have "(98::nat) = of_char CHR ''b''" by simp
  then show ?thesis by (simp only: char_of_char)
qed


lemmas parse_defs =
  parse_attributes_def strchr_def bytes_of_def byte_of_char_def bindU_def int_bytes_eq
  copy_until_def atoi_def c_int_def INT_MIN_def INT_MAX_def parse_type_def byte_at_def
  char_of_byte_def atoi_digits_zeros strchr_l_zeros parse_attrs_numeral char_of_97 char_of_98

lemma parse_attributes_2keys:
  "parse_attributes (header_page schema_2keys)
     = Inr (Inr ([(''a'', DT_INT, 0), (''b'', DT_STRING, 4)], 52))"
  by (simp add: header_2keys parse_defs)

lemma strchr_paren_2keys:
  "strchr (header_page schema_2keys) 52 (byte_of_char CHR ''('') = Inr (Some 76)"
  by (simp add: header_2keys parse_defs)

lemma strchr_comma_2keys:
  "strchr (header_page schema_2keys) 77 (byte_of_char CHR '','') = Inr (Some 78)"
  by (simp add: header_2keys parse_defs)

lemma header_2keys_size: "bytes_int (take 4 (header_page schema_2keys)) = 1"
  by (simp add: header_2keys bytes_int_int_bytes INT_MIN_def INT_MAX_def)

lemma open_header:
  assumes hl: "length hdr = 4096" and bl: "length blk = 4096"
    and m: "bytes_int (take 4 hdr) = 1"
  shows "\<exists>fh bp w1 bm1 w2 bm2 ph.
           openPageFile (files \<lparr>files = [''r'' \<mapsto> hdr @ blk], heap = (\<lambda>a. None), next_addr = 0\<rparr>) ''r''
              \<lparr>fileName = [], totalNumPages = 0, curPagePos = 0\<rparr> = (RC_OK, fh)
         \<and> initBufferPool \<lparr>files = [''r'' \<mapsto> hdr @ blk], heap = (\<lambda>a. None), next_addr = 0\<rparr>
              pool0 ''r'' 10 RS_LRU = (RC_OK, bp)
         \<and> getFileMetaDataSize \<lparr>files = [''r'' \<mapsto> hdr @ blk], heap = (\<lambda>a. None), next_addr = 0\<rparr> bp
              = Inr (1, w1, bm1)
         \<and> read_meta_pages w1 bm1 MAKE_PAGE_HANDLE [0..<nat 1] = Inr (RC_OK, w2, bm2, ph)
         \<and> page_buf w2 ph = Inr hdr"
  using assms
  by (simp add: openPageFile_def getFileMetaDataSize_def MAKE_PAGE_HANDLE_def
        page_read_int_def page_read_def page_buf_def memcpy_from_def pool0_def bm_defs upt_10
        replicate_10 Let_def)

lemma createTable_2keys:
  "\<exists>blk. length blk = 4096
     \<and> createTable (\<lambda>n. IoOk) Map.empty ''r'' schema_2keys
         = Inr (RC_OK, [''r'' \<mapsto> header_page schema_2keys @ blk])"
  using createTable_result [of schema_2keys "\<lambda>n. IoOk" "''r''" 8 Map.empty]
  by (auto simp add: serializeSchema_schema_2keys getRecordSize_schema_2keys bytes_of_def)

text \<open>
  C7. \<^verbatim>\<open>openTable\<close> does not return for a table whose key list holds a comma, that
  is, for every table with two or more key attributes: whenever the file opens, the pool
  is set up, the header pages are read, the attribute list of the schema text parses and
  a comma follows the opening parenthesis of the key list before the end of the text,
  the loop that counts the keys never ends, because it never moves its cursor.
\<close>

theorem openTable_key_list_comma:
  assumes "openPageFile (files w) tableName
             \<lparr>fileName = [], totalNumPages = 0, curPagePos = 0\<rparr> = (RC_OK, fileHandler)"
    and "initBufferPool w pool0 tableName 10 RS_LRU = (RC_OK, bufferPool)"
    and "getFileMetaDataSize w bufferPool = Inr (metadataSize, w1, bm1)"
    and "read_meta_pages w1 bm1 MAKE_PAGE_HANDLE [0..<nat metadataSize]
           = Inr (RC_OK, w2, bm2, pageHandler)"
    and "page_buf w2 pageHandler = Inr buf"
    and "parse_attributes buf = Inr (Inr (as, cursor))"
    and "strchr buf cursor (byte_of_char CHR ''('') = Inr (Some lp)"
    and "strchr buf (lp + 1) (byte_of_char CHR '','') = Inr (Some q)"
  shows "openTable w tableData tableName = None"
proof -
  have "count_keys buf (lp + 1) 0 = None"
    using assms(8) by (rule count_keys_diverges)
  then have "parse_schema buf = None"
    using assms(6,7) by (simp add: parse_schema_def)
  then show ?thesis
    using assms(1-5) by (simp add: openTable_def)
qed

theorem openTable_key_list_comma_witness:
  "createTable (\<lambda>n. IoOk) Map.empty ''r'' schema_2keys = Inr (RC_OK, files world_2keys)
   \<and> parse_attributes (header_page schema_2keys)
       = Inr (Inr ([(''a'', DT_INT, 0), (''b'', DT_STRING, 4)], 52))
   \<and> strchr (header_page schema_2keys) 52 (byte_of_char CHR ''('') = Inr (Some 76)
   \<and> strchr (header_page schema_2keys) (76 + 1) (byte_of_char CHR '','') = Inr (Some 78)
   \<and> openTable world_2keys table0 ''r'' = None"
proof -
  obtain blk where bl: "length blk = 4096"
    and ct: "createTable (\<lambda>n. IoOk) Map.empty ''r'' schema_2keys
               = Inr (RC_OK, [''r'' \<mapsto> header_page schema_2keys @ blk])"
    using createTable_2keys by blast
  have w: "world_2keys = \<lparr>files = [''r'' \<mapsto> header_page schema_2keys @ blk],
                          heap = (\<lambda>a. None), next_addr = 0\<rparr>"
    by (simp add: world_2keys_def ct)
  have hl: "length (header_page schema_2keys) = 4096"
    by (simp add: header_2keys bytes_of_def)
  obtain fh bp w1 bm1 w2 bm2 ph where
    s1: "openPageFile (files world_2keys) ''r''
           \<lparr>fileName = [], totalNumPages = 0, curPagePos = 0\<rparr> = (RC_OK, fh)"
    and s2: "initBufferPool world_2keys pool0 ''r'' 10 RS_LRU = (RC_OK, bp)"
    and s3: "getFileMetaDataSize world_2keys bp = Inr (1, w1, bm1)"
    and s4: "read_meta_pages w1 bm1 MAKE_PAGE_HANDLE [0..<nat 1] = Inr (RC_OK, w2, bm2, ph)"
    and s5: "page_buf w2 ph = Inr (header_page schema_2keys)"
    using open_header [OF hl bl header_2keys_size] unfolding w by blast
  have s8: "strchr (header_page schema_2keys) (76 + 1) (byte_of_char CHR '','') = Inr (Some 78)"
    using strchr_comma_2keys by simp
  have "openTable world_2keys table0 ''r'' = None"
    by (rule openTable_key_list_comma
               [OF s1 s2 s3 s4 s5 parse_attributes_2keys strchr_paren_2keys s8])
  moreover have "files world_2keys = [''r'' \<mapsto> header_page schema_2keys @ blk]"
    by (simp add: w)
  ultimately show ?thesis
    using ct parse_attributes_2keys strchr_paren_2keys s8 by simp
qed

text \<open>
  Where the loop does return it has counted no key at all, so that a schema read back by
  \<^verbatim>\<open>openTable\<close> never has a key attribute.
\<close>

lemma count_keys_result:
  assumes "count_keys buf cursor k = Some (Inr n)"
  shows "n = k"
proof -
  have nc: "\<forall>q. strchr buf cursor (byte_of_char CHR '','') \<noteq> Inr (Some q)"
    using assms by (rule count_keys_Some_no_comma)
  show ?thesis
  proof (cases "strchr buf cursor (byte_of_char CHR '','')")
    case (Inl e)
    with assms show ?thesis by (simp add: count_keys.simps)
  next
    case (Inr r)
    with nc have "r = None" by (cases r) auto
    with Inr assms show ?thesis by (simp add: count_keys.simps)
  qed
qed

lemma parse_schema_no_keys:
  assumes "parse_schema buf = Some (Inr (Inr s))"
  shows "keyAttrs s = []"
  using assms
  by (auto simp add: parse_schema_def split: sum.splits option.splits prod.splits
        dest!: count_keys_result)


section \<open>The chain of page-metadata pages: properties\<close>

lemma file_page_fwrite_at:
  assumes "length src = 4096"
  shows "file_page (fwrite_at file (n * 4096) src) n = src"
proof -
  have "length (take (n * 4096) file @ replicate (n * 4096 - length file) (0::byte)) = n * 4096"
    by simp
  then have "drop (n * 4096) (fwrite_at file (n * 4096) src)
               = src @ drop (n * 4096 + length src) file"
    unfolding fwrite_at_def
    by (metis append.assoc append_eq_conv_conj)
  then show ?thesis
    using assms by (simp add: file_page_def PAGE_SIZE_def)
qed

lemma addPageMetadataBlock_last_pair:
  assumes tot: "0 \<le> totalNumPages fh" "totalNumPages fh < INT_MAX"
  shows "\<exists>fs' fh' file.
           addPageMetadataBlock fs fh = Inr (RC_OK, fs', fh')
         \<and> fs' (fileName fh) = Some file
         \<and> read_int (file_page file (nat (totalNumPages fh))) (PAGE_SIZE - 4) = Inr (- 1)
         \<and> read_int (file_page file (nat (totalNumPages fh))) (PAGE_SIZE - 2 * 4)
             = Inr (totalNumPages fh)"
proof -
  let ?old = "(case fs (fileName fh) of None \<Rightarrow> [] | Some f \<Rightarrow> f) @ replicate 4096 0"
  obtain blk where blk: "fill_metadata (totalNumPages fh + 1) (replicate 4096 0) [0..<512] = Inr blk"
    and len: "length blk = 4096"
    and add: "addPageMetadataBlock fs fh
               = Inr (RC_OK,
                      fs(fileName fh \<mapsto> fwrite_at ?old (nat (totalNumPages fh) * 4096) blk),
                      fh\<lparr>totalNumPages := totalNumPages fh + 1,
                         curPagePos := totalNumPages fh\<rparr>)"
    using addPageMetadataBlock_result [OF tot, of fs] by blast
  have e: "read_int blk (int 511 * 8 + 4) = Inr (- 1)
         \<and> read_int blk (int 511 * 8)
             = Inr (if (511::nat) = 511 then totalNumPages fh + 1 - 1
                    else totalNumPages fh + 1 - 512 + int 511)"
    using tot by (intro fill_metadata_entry [OF blk]) (simp_all add: INT_MIN_def INT_MAX_def)
  have pg: "file_page (fwrite_at ?old (nat (totalNumPages fh) * 4096) blk)
              (nat (totalNumPages fh)) = blk"
    using len by (rule file_page_fwrite_at)
  show ?thesis
    using add e pg by (simp add: PAGE_SIZE_def)
qed

lemma walk_chain_end:
  assumes "walk_chain w bm h p = Some (Inr (w', bm', h'))"
  shows "page_read_int w' h' (PAGE_SIZE - 4) = Inr (- 1)"
proof -
  have "\<forall>w2 bm2 h2. (Inr (w', bm', h') :: ub + (world \<times> BM_BufferPool \<times> BM_PageHandle))
                         = Inr (w2, bm2, h2)
          \<longrightarrow> page_read_int w2 h2 (PAGE_SIZE - 4) = Inr (- 1)"
  proof (rule walk_chain.raw_induct
           [where P = "\<lambda>w bm h p y. \<forall>w' bm' h'. y = Inr (w', bm', h')
                          \<longrightarrow> page_read_int w' h' (PAGE_SIZE - 4) = Inr (- 1)"
              and y = "Inr (w', bm', h')",
            OF _ assms])
    fix walk_chain' w bm h p_meta_index y
    assume IH: "\<And>w bm h p y. walk_chain' w bm h p = Some y \<Longrightarrow>
                  \<forall>w' bm' h'. y = Inr (w', bm', h')
                     \<longrightarrow> page_read_int w' h' (PAGE_SIZE - 4) = Inr (- 1)"
      and body: "(case pinPage w bm h p_meta_index of
        Inl e \<Rightarrow> Some (Inl e)
      | Inr (rc, w1, bm1, h1) \<Rightarrow>
          (case page_read_int w1 h1 (PAGE_SIZE - 4) of
             Inl e \<Rightarrow> Some (Inl e)
           | Inr nxt \<Rightarrow>
               if nxt \<noteq> - 1
               then (case unpinPage bm1 h1 of
                       Inl e \<Rightarrow> Some (Inl e)
                     | Inr (rc', bm2) \<Rightarrow> walk_chain' w1 bm2 h1 nxt)
               else Some (Inr (w1, bm1, h1)))) = Some y"
    show "\<forall>w' bm' h'. y = Inr (w', bm', h')
             \<longrightarrow> page_read_int w' h' (PAGE_SIZE - 4) = Inr (- 1)"
    proof (cases "pinPage w bm h p_meta_index")
      case (Inl e)
      with body show ?thesis by auto
    next
      case (Inr r)
      obtain rc w1 bm1 h1 where r: "r = (rc, w1, bm1, h1)" by (cases r) auto
      show ?thesis
      proof (cases "page_read_int w1 h1 (PAGE_SIZE - 4)")
        case (Inl e)
        with body Inr r show ?thesis by auto
      next
        case nx: (Inr nxt)
        show ?thesis
        proof (cases "nxt = - 1")
          case True
          with body Inr r nx show ?thesis by auto
        next
          case False
          show ?thesis
          proof (cases "unpinPage bm1 h1")
            case (Inl e)
            with body Inr r nx False show ?thesis by auto
          next
            case u: (Inr u)
            obtain rc' bm2 where "u = (rc', bm2)" by (cases u) auto
            with body Inr r nx False u have "walk_chain' w1 bm2 h1 nxt = Some y" by simp
            then show ?thesis by (rule IH)
          qed
        qed
      qed
    qed
  qed
  then show ?thesis by simp
qed

lemma file_page_fwrite_at_other:
  assumes src: "length src = 4096" and ne: "q \<noteq> n"
    and full: "length (file_page file n) = 4096"
  shows "file_page (fwrite_at file (q * 4096) src) n = file_page file n"
proof -
  have len: "(n + 1) * 4096 \<le> length file"
    using full by (simp add: file_page_def PAGE_SIZE_def)
  show ?thesis
  proof (cases "q < n")
    case True
    then have q: "q * 4096 + 4096 \<le> n * 4096" by simp
    then have l: "q * 4096 \<le> length file" using len by simp
    have "drop (n * 4096) (fwrite_at file (q * 4096) src)
            = drop (n * 4096 - (q * 4096 + 4096)) (drop (q * 4096 + 4096) file)"
      using l q src by (simp add: fwrite_at_def)
    also have "\<dots> = drop (n * 4096) file" using q by simp
    finally show ?thesis by (simp add: file_page_def PAGE_SIZE_def)
  next
    case False
    with ne have "n < q" by simp
    then have q: "n * 4096 + 4096 \<le> q * 4096" by simp
    have "take 4096 (drop (n * 4096) (fwrite_at file (q * 4096) src))
            = take 4096 (drop (n * 4096) (take (q * 4096) file))"
      using q len by (simp add: fwrite_at_def)
    also have "\<dots> = take 4096 (drop (n * 4096) file)"
      using q by (simp add: drop_take min_def)
    finally show ?thesis by (simp add: file_page_def PAGE_SIZE_def)
  qed
qed


lemma clear_dirty_frames:
  "clear_dirty bm pn is = Inr bm' \<Longrightarrow>
     pageFile bm' = pageFile bm \<and> numPages bm' = numPages bm
     \<and> map pageNum (mgmtData bm') = map pageNum (mgmtData bm)
     \<and> map data (mgmtData bm') = map data (mgmtData bm)
     \<and> (\<forall>g \<in> set (mgmtData bm'). \<exists>g0 \<in> set (mgmtData bm).
            g = g0 \<or> (pageNum g0 = pn \<and> g = g0\<lparr>dirty := False\<rparr>))"
proof (induction "is")
  case Nil
  then show ?case by auto
next
  case (Cons i rest)
  from Cons.prems obtain f where f: "frame_at bm (int i) = Inr f"
    by (auto simp: bindU_Inr_iff)
  show ?case
  proof (cases "pageNum f = pn")
    case False
    with Cons f show ?thesis by (simp add: bindU_def)
  next
    case True
    with Cons.prems f have bm': "bm' = set_frame bm (int i) (f\<lparr>dirty := False\<rparr>)"
      by (simp add: bindU_def)
    have i: "i < length (mgmtData bm)" and fi: "f = mgmtData bm ! i"
      using f by (auto dest: frame_at_Inr)
    have fin: "f \<in> set (mgmtData bm)" using i fi by simp
    have "\<forall>g \<in> set (mgmtData bm'). \<exists>g0 \<in> set (mgmtData bm).
            g = g0 \<or> (pageNum g0 = pn \<and> g = g0\<lparr>dirty := False\<rparr>)"
    proof
      fix g assume "g \<in> set (mgmtData bm')"
      then have "g \<in> insert (f\<lparr>dirty := False\<rparr>) (set (mgmtData bm))"
        using set_update_subset_insert [of "mgmtData bm" i "f\<lparr>dirty := False\<rparr>"]
        by (auto simp: bm' set_frame_def)
      then show "\<exists>g0 \<in> set (mgmtData bm). g = g0 \<or> (pageNum g0 = pn \<and> g = g0\<lparr>dirty := False\<rparr>)"
        using fin True by auto
    qed
    moreover have "map pageNum (mgmtData bm') = map pageNum (mgmtData bm)"
      using i fi by (simp add: bm' set_frame_def map_update list_update_same_conv)
    moreover have "map data (mgmtData bm') = map data (mgmtData bm)"
      using i fi by (simp add: bm' set_frame_def map_update list_update_same_conv)
    ultimately show ?thesis by (simp add: bm' set_frame_def)
  qed
qed


lemma forcePage_frame_effect:
  assumes run: "forcePage_frame w bm i = Inr (rc, w', bm')"
    and fl: "files w (pageFile bm) = Some file"
  shows "\<exists>f a' b'. frame_at bm i = Inr f \<and> data f = Some a' \<and> heap w a' = Some b'
           \<and> 4096 \<le> length b' \<and> INT_MIN \<le> pageNum f * 4096 \<and> pageNum f * 4096 \<le> INT_MAX
           \<and> files w' = (files w)(pageFile bm \<mapsto>
                 fwrite_at file (seek_pos (pageNum f * 4096)) (take 4096 b'))
           \<and> heap w' = heap w \<and> next_addr w' = next_addr w \<and> pageFile bm' = pageFile bm
           \<and> map data (mgmtData bm') = map data (mgmtData bm)
           \<and> (\<forall>g \<in> set (mgmtData bm'). \<exists>g0 \<in> set (mgmtData bm).
                  g = g0 \<or> (pageNum g0 = pageNum f \<and> g = g0\<lparr>dirty := False\<rparr>))"
proof -
  from run obtain f rc1 w1 bm1 h1 where f: "frame_at bm i = Inr f"
    and fp: "forcePage w bm f = Inr (rc1, w1, bm1, h1)"
    and r: "(if rc1 = RC_OK
             then bindU (frame_at bm1 i) (\<lambda>f'. Inr (rc1, w1, set_frame bm1 i (f'\<lparr>dirty := False\<rparr>)))
             else Inr (rc1, w1, bm1)) = Inr (rc, w', bm')"
    by (auto simp: forcePage_frame_def bindU_Inr_iff)
  from fp fl have
    "\<exists>a' b' nw bmc. data f = Some a' \<and> heap w a' = Some b' \<and> 4096 \<le> length b'
        \<and> INT_MIN \<le> pageNum f * 4096 \<and> pageNum f * 4096 \<le> INT_MAX
        \<and> clear_dirty (bm\<lparr>numWriteIO := nw\<rparr>) (pageNum f) [0..<nat (numPages bm)] = Inr bmc
        \<and> rc1 = RC_OK \<and> bm1 = bmc
        \<and> w1 = w\<lparr>files := (files w)(pageFile bm \<mapsto>
                 fwrite_at file (seek_pos (pageNum f * 4096)) (take 4096 b'))\<rparr>"
    by (auto simp: forcePage_def bindU_Inr_iff case_option_Inr_iff memcpy_from_def c_int_def
          PAGE_SIZE_def split: if_split_asm)
  then obtain a' b' nw where d: "data f = Some a'" and hb: "heap w a' = Some b'"
    and len: "4096 \<le> length b'"
    and rng: "INT_MIN \<le> pageNum f * 4096" "pageNum f * 4096 \<le> INT_MAX"
    and cd: "clear_dirty (bm\<lparr>numWriteIO := nw\<rparr>) (pageNum f) [0..<nat (numPages bm)] = Inr bm1"
    and rc1: "rc1 = RC_OK"
    and w1: "w1 = w\<lparr>files := (files w)(pageFile bm \<mapsto>
                 fwrite_at file (seek_pos (pageNum f * 4096)) (take 4096 b'))\<rparr>"
    by blast
  from clear_dirty_frames [OF cd] have pf1: "pageFile bm1 = pageFile bm"
    and pn1: "map pageNum (mgmtData bm1) = map pageNum (mgmtData bm)"
    and dt1: "map data (mgmtData bm1) = map data (mgmtData bm)"
    and fr1: "\<forall>g \<in> set (mgmtData bm1). \<exists>g0 \<in> set (mgmtData bm).
            g = g0 \<or> (pageNum g0 = pageNum f \<and> g = g0\<lparr>dirty := False\<rparr>)"
    by simp_all
  from r rc1 obtain f' where f': "frame_at bm1 i = Inr f'"
    and res: "w' = w1" "bm' = set_frame bm1 i (f'\<lparr>dirty := False\<rparr>)"
    by (auto simp: bindU_Inr_iff)
  have i: "0 \<le> i" "nat i < length (mgmtData bm)" and fi: "f = mgmtData bm ! nat i"
    using f by (auto dest: frame_at_Inr)
  have i1: "nat i < length (mgmtData bm1)" and fi1: "f' = mgmtData bm1 ! nat i"
    using f' by (auto dest: frame_at_Inr)
  have "pageNum f' = pageNum f"
    using pn1 i i1 fi fi1 by (metis nth_map)
  moreover have "f' \<in> set (mgmtData bm1)" using i1 fi1 by simp
  ultimately obtain g0 where g0: "g0 \<in> set (mgmtData bm)" "pageNum g0 = pageNum f"
    "f'\<lparr>dirty := False\<rparr> = g0\<lparr>dirty := False\<rparr>"
    using fr1 by (metis BM_PageHandle.surjective BM_PageHandle.update_convs(3))
  have "\<forall>g \<in> set (mgmtData bm'). \<exists>g0 \<in> set (mgmtData bm).
                  g = g0 \<or> (pageNum g0 = pageNum f \<and> g = g0\<lparr>dirty := False\<rparr>)"
  proof
    fix g assume "g \<in> set (mgmtData bm')"
    then have "g \<in> insert (f'\<lparr>dirty := False\<rparr>) (set (mgmtData bm1))"
      using set_update_subset_insert [of "mgmtData bm1" "nat i" "f'\<lparr>dirty := False\<rparr>"]
      by (auto simp: res set_frame_def)
    then show "\<exists>g0 \<in> set (mgmtData bm). g = g0 \<or> (pageNum g0 = pageNum f \<and> g = g0\<lparr>dirty := False\<rparr>)"
      using g0 fr1 by auto
  qed
  moreover have "map data (mgmtData bm') = map data (mgmtData bm1)"
    using i1 fi1 by (simp add: res set_frame_def map_update list_update_same_conv)
  ultimately show ?thesis
    using f d hb len rng res w1 pf1 dt1 by (auto simp: set_frame_def)
qed


lemma mapU_related:
  "mapU g xs = Inr ys \<Longrightarrow> (\<And>x y. g x = Inr y \<Longrightarrow> R y x) \<Longrightarrow> \<forall>y \<in> set ys. \<exists>x \<in> set xs. R y x"
proof (induction xs arbitrary: ys)
  case Nil
  then show ?case by simp
next
  case (Cons a xs)
  from Cons.prems(1) obtain y0 ys0 where y0: "g a = Inr y0" and ys0: "mapU g xs = Inr ys0"
    and ys: "ys = y0 # ys0"
    by (auto simp: bindU_Inr_iff)
  have "R y0 a" using y0 by (rule Cons.prems(2))
  moreover have "\<forall>y \<in> set ys0. \<exists>x \<in> set xs. R y x"
    using ys0 Cons.prems(2) by (rule Cons.IH)
  ultimately show ?case using ys by auto
qed

lemma strategy_frames:
  assumes "strategyFIFOandLRU bm = Inr (p, bm')"
  shows "pageFile bm' = pageFile bm
       \<and> (\<forall>g \<in> set (mgmtData bm'). \<exists>g0 \<in> set (mgmtData bm).
             data g = data g0 \<and> dirty g = dirty g0 \<and> pageNum g = pageNum g0)"
proof -
  have g: "\<And>l (x::BM_PageHandle) y. (case strategyAttribute x of None \<Rightarrow> Inr x
              | Some a \<Rightarrow> bindU (c_int (a - l)) (\<lambda>a'. Inr (x\<lparr>strategyAttribute := Some a'\<rparr>))) = Inr y
           \<Longrightarrow> data y = data x \<and> dirty y = dirty x \<and> pageNum y = pageNum x"
    by (auto simp: bindU_Inr_iff split: option.splits)
  have "\<And>l fs. mapU (\<lambda>f. case strategyAttribute f of None \<Rightarrow> Inr f
              | Some a \<Rightarrow> bindU (c_int (a - l)) (\<lambda>a'. Inr (f\<lparr>strategyAttribute := Some a'\<rparr>)))
            (take (nat (numPages bm)) (mgmtData bm)) = Inr fs
        \<Longrightarrow> \<forall>g \<in> set (fs @ drop (nat (numPages bm)) (mgmtData bm)). \<exists>g0 \<in> set (mgmtData bm).
             data g = data g0 \<and> dirty g = dirty g0 \<and> pageNum g = pageNum g0"
  proof -
    fix l fs
    assume "mapU (\<lambda>f. case strategyAttribute f of None \<Rightarrow> Inr f
              | Some a \<Rightarrow> bindU (c_int (a - l)) (\<lambda>a'. Inr (f\<lparr>strategyAttribute := Some a'\<rparr>)))
            (take (nat (numPages bm)) (mgmtData bm)) = Inr fs"
    then have "\<forall>y \<in> set fs. \<exists>x \<in> set (take (nat (numPages bm)) (mgmtData bm)).
                 data y = data x \<and> dirty y = dirty x \<and> pageNum y = pageNum x"
      by (rule mapU_related) (rule g)
    then show "\<forall>g \<in> set (fs @ drop (nat (numPages bm)) (mgmtData bm)). \<exists>g0 \<in> set (mgmtData bm).
             data g = data g0 \<and> dirty g = dirty g0 \<and> pageNum g = pageNum g0"
      by (auto dest: in_set_takeD in_set_dropD)
  qed
  with assms show ?thesis
    by (auto simp: strategyFIFOandLRU_def inv_simps case_prod_Inr_iff split: if_split_asm)
qed


lemma page_on_disk_flush_same:
  assumes "files w name = Some file" and "4096 \<le> length b" and "0 \<le> pn"
  shows "page_on_disk
           (w\<lparr>files := (files w)(name \<mapsto> fwrite_at file (seek_pos (pn * 4096)) (take 4096 b))\<rparr>)
           name pn b"
proof -
  have "seek_pos (pn * 4096) = nat pn * 4096"
    using assms(3) by (simp add: seek_pos_def nat_mult_distrib)
  moreover have "file_page (fwrite_at file (nat pn * 4096) (take 4096 b)) (nat pn) = take 4096 b"
    using assms(2) by (intro file_page_fwrite_at) simp
  ultimately show ?thesis using assms(2) by (simp add: page_on_disk_def)
qed

lemma page_on_disk_flush_other:
  assumes disk: "page_on_disk w name pn b" and fl: "files w name = Some file"
    and len: "4096 \<le> length b'" and q: "0 \<le> q" "q \<noteq> pn" and pn: "0 \<le> pn"
  shows "page_on_disk
           (w\<lparr>files := (files w)(name \<mapsto> fwrite_at file (seek_pos (q * 4096)) (take 4096 b'))\<rparr>)
           name pn b"
proof -
  have s: "seek_pos (q * 4096) = nat q * 4096"
    using q(1) by (simp add: seek_pos_def nat_mult_distrib)
  have d: "4096 \<le> length b" "file_page file (nat pn) = take 4096 b"
    using disk fl by (simp_all add: page_on_disk_def)
  have "file_page (fwrite_at file (nat q * 4096) (take 4096 b')) (nat pn) = file_page file (nat pn)"
    using len q pn d by (intro file_page_fwrite_at_other) auto
  then show ?thesis using d s by (simp add: page_on_disk_def)
qed

lemma pinPage_loop_keeps_page:
  "pinPage_loop w bm p flag pnum is = Inr (w1, bm1, flag1, pnum1) \<Longrightarrow>
   heap w a = Some b \<Longrightarrow> heap w (next_addr w) = None \<Longrightarrow>
   files w (pageFile bm) \<noteq> None \<Longrightarrow> 0 \<le> pn \<Longrightarrow>
   \<forall>f \<in> set (mgmtData bm). dirty_frame_ok a pn f \<Longrightarrow>
   page_on_disk w (pageFile bm) pn b \<or> (\<forall>f \<in> set (mgmtData bm). on_buffer_dirty a pn f) \<Longrightarrow>
   (0 \<le> pnum \<and> nat pnum < length (mgmtData bm) \<and> data (mgmtData bm ! nat pnum) = Some a
      \<longrightarrow> page_on_disk w (pageFile bm) pn b) \<Longrightarrow>
   heap w1 a = Some b \<and> pageFile bm1 = pageFile bm \<and> files w1 (pageFile bm) \<noteq> None
   \<and> (flag1 = 1 \<and> 0 \<le> pnum1 \<and> nat pnum1 < length (mgmtData bm1)
        \<and> data (mgmtData bm1 ! nat pnum1) = Some a
      \<longrightarrow> page_on_disk w1 (pageFile bm) pn b)"
proof (induction "is" arbitrary: w bm flag pnum)
  case Nil
  then show ?case by simp
next
  case (Cons i rest)
  note run = Cons.prems(1) and hp = Cons.prems(2) and fresh = Cons.prems(3)
    and fl = Cons.prems(4) and pn = Cons.prems(5) and G = Cons.prems(6)
    and I = Cons.prems(7) and pre = Cons.prems(8)
  from run obtain f where f: "frame_at bm (int i) = Inr f"
    by (auto simp: bindU_Inr_iff)
  have ilt: "i < length (mgmtData bm)" using f by (auto dest: frame_at_Inr)
  have ne: "a \<noteq> next_addr w" using hp fresh by auto
  consider (A) "pageNum f = NO_PAGE"
    | (B) "pageNum f \<noteq> NO_PAGE" "pageNum f = p"
    | (C) "pageNum f \<noteq> NO_PAGE" "pageNum f \<noteq> p" "int i = numPages bm - 1"
          "strategy bm = RS_FIFO \<or> strategy bm = RS_LRU"
    | (C') "pageNum f \<noteq> NO_PAGE" "pageNum f \<noteq> p" "int i = numPages bm - 1"
          "\<not> (strategy bm = RS_FIFO \<or> strategy bm = RS_LRU)"
    | (D) "pageNum f \<noteq> NO_PAGE" "pageNum f \<noteq> p" "int i \<noteq> numPages bm - 1"
    by blast
  then show ?case
  proof cases
    case A
    with run f have r: "w1 = snd (calloc_page w)"
      "bm1 = set_frame bm (int i) (f\<lparr>data := Some (next_addr w)\<rparr>)" "pnum1 = int i"
      by (auto simp add: bindU_def calloc_page_def)
    have "data (mgmtData bm1 ! nat pnum1) \<noteq> Some a"
      using ilt ne by (simp add: r set_frame_def)
    then show ?thesis using hp fl ne by (simp add: r calloc_page_def set_frame_def)
  next
    case B
    with run f have "flag1 = 2 \<and> w1 = w \<and> pageFile bm1 = pageFile bm"
      by (auto simp: bindU_Inr_iff set_frame_def split: if_split_asm)
    then show ?thesis using hp fl by simp
  next
    case C
    with run f obtain pnum' bms victim where st: "strategyFIFOandLRU bm = Inr (pnum', bms)"
      and v: "frame_at bms pnum' = Inr victim"
      and r: "(if dirty victim
               then bindU (forcePage_frame w bms pnum') (\<lambda>(rc, w2, bm2).
                      pinPage_loop w2 bm2 p 1 pnum' rest)
               else pinPage_loop w bms p 1 pnum' rest) = Inr (w1, bm1, flag1, pnum1)"
      by (auto simp: bindU_Inr_iff)
    from strategy_frames [OF st] have pfs: "pageFile bms = pageFile bm"
      and frs: "\<forall>g \<in> set (mgmtData bms). \<exists>g0 \<in> set (mgmtData bm).
             data g = data g0 \<and> dirty g = dirty g0 \<and> pageNum g = pageNum g0"
      by simp_all
    have Gs: "\<forall>f \<in> set (mgmtData bms). dirty_frame_ok a pn f"
      using G frs by (fastforce simp: dirty_frame_ok_def)
    have Is: "page_on_disk w (pageFile bms) pn b
              \<or> (\<forall>f \<in> set (mgmtData bms). on_buffer_dirty a pn f)"
      using I frs pfs by (fastforce simp: on_buffer_dirty_def)
    have vlt: "0 \<le> pnum'" "nat pnum' < length (mgmtData bms)"
      and vi: "victim = mgmtData bms ! nat pnum'"
      using v by (auto dest: frame_at_Inr)
    have vin: "victim \<in> set (mgmtData bms)" using vlt vi by simp
    show ?thesis
    proof (cases "dirty victim")
      case False
      with r have rec: "pinPage_loop w bms p 1 pnum' rest = Inr (w1, bm1, flag1, pnum1)"
        by simp
      have pre': "0 \<le> pnum' \<and> nat pnum' < length (mgmtData bms)
                   \<and> data (mgmtData bms ! nat pnum') = Some a
                  \<longrightarrow> page_on_disk w (pageFile bms) pn b"
        using Is vin vi False by (auto simp: on_buffer_dirty_def)
      have "heap w1 a = Some b \<and> pageFile bm1 = pageFile bms \<and> files w1 (pageFile bms) \<noteq> None
            \<and> (flag1 = 1 \<and> 0 \<le> pnum1 \<and> nat pnum1 < length (mgmtData bm1)
                 \<and> data (mgmtData bm1 ! nat pnum1) = Some a
               \<longrightarrow> page_on_disk w1 (pageFile bms) pn b)"
        using rec hp fresh _ pn Gs Is pre' by (rule Cons.IH) (simp add: pfs fl)
      then show ?thesis by (simp add: pfs)
    next
      case True
      with r obtain rc w2 bm2 where fp: "forcePage_frame w bms pnum' = Inr (rc, w2, bm2)"
        and rec: "pinPage_loop w2 bm2 p 1 pnum' rest = Inr (w1, bm1, flag1, pnum1)"
        by (auto simp: bindU_Inr_iff)
      from fl pfs obtain fcont where fc: "files w (pageFile bms) = Some fcont" by auto
      from forcePage_frame_effect [OF fp fc] v obtain a' b' where
        d: "data victim = Some a'" and hb: "heap w a' = Some b'" and len: "4096 \<le> length b'"
        and fw: "files w2 = (files w)(pageFile bms \<mapsto>
                 fwrite_at fcont (seek_pos (pageNum victim * 4096)) (take 4096 b'))"
        and h2: "heap w2 = heap w" and n2: "next_addr w2 = next_addr w"
        and pf2: "pageFile bm2 = pageFile bms"
        and dt2: "map data (mgmtData bm2) = map data (mgmtData bms)"
        and fr2: "\<forall>g \<in> set (mgmtData bm2). \<exists>g0 \<in> set (mgmtData bms).
                  g = g0 \<or> (pageNum g0 = pageNum victim \<and> g = g0\<lparr>dirty := False\<rparr>)"
        by auto
      have w2: "w2 = w\<lparr>files := (files w)(pageFile bms \<mapsto>
                 fwrite_at fcont (seek_pos (pageNum victim * 4096)) (take 4096 b'))\<rparr>"
        using fw h2 n2 by simp
      have vG: "0 \<le> pageNum victim" "pageNum victim = pn \<longrightarrow> data victim = Some a"
        using Gs vin True by (auto simp: dirty_frame_ok_def)
      have G2: "\<forall>f \<in> set (mgmtData bm2). dirty_frame_ok a pn f"
        using Gs fr2 by (fastforce simp: dirty_frame_ok_def)
      have same: "page_on_disk w2 (pageFile bms) pn b" if "pageNum victim = pn"
      proof -
        from that vG d hp hb have "b' = b" by auto
        then show ?thesis
          unfolding w2 using fc len pn that by (simp add: page_on_disk_flush_same)
      qed
      have other: "page_on_disk w2 (pageFile bms) pn b"
        if "pageNum victim \<noteq> pn" "page_on_disk w (pageFile bms) pn b"
        unfolding w2 using that fc len vG(1) pn by (intro page_on_disk_flush_other) auto
      have I2: "page_on_disk w2 (pageFile bm2) pn b
                \<or> (\<forall>f \<in> set (mgmtData bm2). on_buffer_dirty a pn f)"
      proof (cases "pageNum victim = pn")
        case True
        then show ?thesis using same pf2 by simp
      next
        case False
        from Is show ?thesis
        proof
          assume "page_on_disk w (pageFile bms) pn b"
          then show ?thesis using other False pf2 by simp
        next
          assume Q: "\<forall>f \<in> set (mgmtData bms). on_buffer_dirty a pn f"
          have "\<forall>f \<in> set (mgmtData bm2). on_buffer_dirty a pn f"
            using Q fr2 False by (fastforce simp: on_buffer_dirty_def)
          then show ?thesis by simp
        qed
      qed
      have dv: "page_on_disk w2 (pageFile bms) pn b" if "data victim = Some a"
      proof (cases "pageNum victim = pn")
        case True
        then show ?thesis by (rule same)
      next
        case False
        from Is have "page_on_disk w (pageFile bms) pn b"
        proof
          assume "page_on_disk w (pageFile bms) pn b"
          then show ?thesis .
        next
          assume "\<forall>f \<in> set (mgmtData bms). on_buffer_dirty a pn f"
          then have "pageNum victim = pn" using vin that by (auto simp: on_buffer_dirty_def)
          with False show ?thesis by simp
        qed
        with False show ?thesis by (rule other)
      qed
      have l2: "length (mgmtData bm2) = length (mgmtData bms)"
        using dt2 by (metis length_map)
      have "data (mgmtData bm2 ! nat pnum') = data victim"
        using dt2 vlt vi l2 by (metis nth_map)
      then have pre': "0 \<le> pnum' \<and> nat pnum' < length (mgmtData bm2)
                   \<and> data (mgmtData bm2 ! nat pnum') = Some a
                  \<longrightarrow> page_on_disk w2 (pageFile bm2) pn b"
        using dv pf2 by simp
      have "heap w1 a = Some b \<and> pageFile bm1 = pageFile bm2 \<and> files w1 (pageFile bm2) \<noteq> None
            \<and> (flag1 = 1 \<and> 0 \<le> pnum1 \<and> nat pnum1 < length (mgmtData bm1)
                 \<and> data (mgmtData bm1 ! nat pnum1) = Some a
               \<longrightarrow> page_on_disk w1 (pageFile bm2) pn b)"
        using rec _ _ _ pn G2 I2 pre'
        by (rule Cons.IH) (simp_all add: h2 n2 hp fresh fw pf2)
      then show ?thesis by (simp add: pf2 pfs)
    qed
  next
    case C'
    with run f have rec: "pinPage_loop w bm p 1 pnum rest = Inr (w1, bm1, flag1, pnum1)"
      by (simp add: bindU_def)
    show ?thesis using rec hp fresh fl pn G I pre by (rule Cons.IH)
  next
    case D
    with run f have rec: "pinPage_loop w bm p flag pnum rest = Inr (w1, bm1, flag1, pnum1)"
      by (simp add: bindU_def)
    show ?thesis using rec hp fresh fl pn G I pre by (rule Cons.IH)
  qed
qed

lemma heap_forcePage:
  "forcePage w bm h = Inr (rc, w', bm', h') \<Longrightarrow> heap w' = heap w \<and> next_addr w' = next_addr w"
  by (cases "files w (pageFile bm)") (auto simp: forcePage_def inv_simps)

lemma heap_forcePage_frame:
  "forcePage_frame w bm i = Inr (rc, w', bm') \<Longrightarrow> heap w' = heap w \<and> next_addr w' = next_addr w"
  by (auto simp: forcePage_frame_def bindU_Inr_iff split: if_splits dest!: heap_forcePage)

lemma heap_pinPage_loop:
  "pinPage_loop w bm pn flag pnum is = Inr (w1, bm1, flag1, pnum1) \<Longrightarrow>
     heap w a = Some b \<Longrightarrow> heap w (next_addr w) = None \<Longrightarrow> heap w1 a = Some b"
proof (induction "is" arbitrary: w bm flag pnum)
  case Nil
  then show ?case by simp
next
  case (Cons i rest)
  from Cons.prems obtain f where f: "frame_at bm (int i) = Inr f"
    by (auto simp: bindU_Inr_iff)
  have ne: "a \<noteq> next_addr w" using Cons.prems(2,3) by auto
  show ?case using Cons.prems f ne
    by (auto simp: inv_simps case_prod_Inr_iff calloc_page_def
          split: if_split_asm
          dest!: heap_forcePage_frame intro: Cons.IH)
qed


lemma heap_pinPage:
  assumes run: "pinPage w bm h p = Inr (rc, w', bm', h')"
    and a: "heap w a = Some b" and fresh: "heap w (next_addr w) = None"
  shows "heap w' a = Some b \<or> (\<exists>f \<in> set (mgmtData bm'). data f = Some a \<and> pageNum f = p)"
proof -
  from run obtain w1 bm1 flag pnum where
    loop: "pinPage_loop w bm p 0 (- 1) [0..<nat (numPages bm)] = Inr (w1, bm1, flag, pnum)"
    by (auto simp: pinPage_def bindU_Inr_iff)
  have h1: "heap w1 a = Some b" using loop a fresh by (rule heap_pinPage_loop)
  consider "flag = 1" | "flag = 2" | "flag \<noteq> 1 \<and> flag \<noteq> 2" by blast
  then show ?thesis
  proof cases
    case 1
    with run loop have
      "\<exists>fl off f a' buf' fc. frame_at bm1 pnum = Inr f \<and> data f = Some a'
         \<and> w' = w1\<lparr>heap := (heap w1)(a' \<mapsto> snd (fread_page fl (seek_pos off) buf'))\<rparr>
         \<and> (mgmtData bm' = (mgmtData bm1)[nat pnum := f\<lparr>fixCounts := fc, pageNum := p\<rparr>]
              \<or> mgmtData bm' = (mgmtData bm1)[nat pnum := f\<lparr>fixCounts := fc, pageNum := p,
                                       strategyAttribute := Some (timer bm1)\<rparr>])"
      by (auto simp: pinPage_def bindU_Inr_iff case_option_Inr_iff Let_def set_frame_def
            split: if_split_asm)
    then obtain fl off f a' buf' fc where f: "frame_at bm1 pnum = Inr f"
      and d: "data f = Some a'"
      and hw: "w' = w1\<lparr>heap := (heap w1)(a' \<mapsto> snd (fread_page fl (seek_pos off) buf'))\<rparr>"
      and bm': "mgmtData bm' = (mgmtData bm1)[nat pnum := f\<lparr>fixCounts := fc, pageNum := p\<rparr>]
              \<or> mgmtData bm' = (mgmtData bm1)[nat pnum := f\<lparr>fixCounts := fc, pageNum := p,
                                       strategyAttribute := Some (timer bm1)\<rparr>]"
      by blast
    show ?thesis
    proof (cases "a' = a")
      case False
      then show ?thesis using hw h1 by simp
    next
      case True
      have lt: "nat pnum < length (mgmtData bm1)" using f by (auto dest: frame_at_Inr)
      from bm' have "\<exists>g \<in> set (mgmtData bm'). data g = Some a \<and> pageNum g = p"
      proof
        assume e: "mgmtData bm' = (mgmtData bm1)[nat pnum := f\<lparr>fixCounts := fc, pageNum := p\<rparr>]"
        have "f\<lparr>fixCounts := fc, pageNum := p\<rparr> \<in> set (mgmtData bm')"
          unfolding e using lt by (rule set_update_memI)
        then show ?thesis using d True by (intro bexI [of _ "f\<lparr>fixCounts := fc, pageNum := p\<rparr>"]) simp_all
      next
        assume e: "mgmtData bm' = (mgmtData bm1)[nat pnum := f\<lparr>fixCounts := fc, pageNum := p,
                                       strategyAttribute := Some (timer bm1)\<rparr>]"
        have "f\<lparr>fixCounts := fc, pageNum := p, strategyAttribute := Some (timer bm1)\<rparr>
                \<in> set (mgmtData bm')"
          unfolding e using lt by (rule set_update_memI)
        then show ?thesis using d True
          by (intro bexI [of _ "f\<lparr>fixCounts := fc, pageNum := p,
                                  strategyAttribute := Some (timer bm1)\<rparr>"]) simp_all
      qed
      then show ?thesis by simp
    qed
  next
    case 2
    with run loop have "w' = w1" by (auto simp: pinPage_def bindU_Inr_iff Let_def)
    then show ?thesis using h1 by simp
  next
    case 3
    with run loop have "w' = w1" by (auto simp: pinPage_def bindU_Inr_iff)
    then show ?thesis using h1 by simp
  qed
qed


lemma page_read_int_heap:
  "data h = Some a \<Longrightarrow> heap w a = Some buf \<Longrightarrow> page_read_int w h off = read_int buf off"
  by (simp add: page_read_int_def page_read_def page_buf_def read_int_def bindU_def)

lemma page_write_int_Inr:
  assumes "page_write_int w h off x = Inr w1"
  shows "\<exists>a buf buf1. data h = Some a \<and> heap w a = Some buf \<and> write_int buf off x = Inr buf1
           \<and> w1 = w\<lparr>heap := (heap w)(a \<mapsto> buf1)\<rparr>"
  using assms
  by (auto simp add: page_write_int_def page_write_def page_buf_def write_int_def bindU_Inr_iff
        split: option.splits)

lemma link_metadata_Inr:
  assumes "link_metadata w rel h = Inr (w', rel', h', off)"
  shows "\<exists>w1 rca fs2 fh2 rcb bm3 h3 rcc bm4 pp rcd bm5.
           page_write_int w h (PAGE_SIZE - 4) (totalNumPages (tbl_fh rel)) = Inr w1
         \<and> addPageMetadataBlock (files w1) (tbl_fh rel) = Inr (rca, fs2, fh2)
         \<and> markDirty (tbl_bm rel) h = Inr (rcb, bm3, h3)
         \<and> unpinPage bm3 h3 = Inr (rcc, bm4)
         \<and> c_int (totalNumPages fh2 - 1) = Inr pp
         \<and> pinPage (w1\<lparr>files := fs2\<rparr>) bm4 h3 pp = Inr (rcd, w', bm5, h')
         \<and> rel' = rel\<lparr>tbl_bm := bm5, tbl_fh := fh2\<rparr>"
  using assms
  by (auto simp add: link_metadata_def bindU_Inr_iff)

lemma link_metadata_buffer:
  assumes run: "link_metadata w rel h = Inr (w', rel', h', off)"
    and tot: "0 \<le> totalNumPages (tbl_fh rel)" "totalNumPages (tbl_fh rel) < INT_MAX"
    and a: "data h = Some a"
    and fresh: "heap w (next_addr w) = None"
    and keep: "\<forall>f \<in> set (mgmtData (tbl_bm rel')).
                 data f = Some a \<longrightarrow> pageNum f \<noteq> totalNumPages (tbl_fh rel)"
  shows "page_read_int w' h (PAGE_SIZE - 4) = Inr (totalNumPages (tbl_fh rel))
       \<and> page_read_int w' h (PAGE_SIZE - 2 * 4) = page_read_int w h (PAGE_SIZE - 2 * 4)"
proof -
  let ?X = "totalNumPages (tbl_fh rel)"
  from link_metadata_Inr [OF run] obtain w1 rca fs2 fh2 rcb bm3 h3 rcc bm4 pp rcd bm5 where
    wr: "page_write_int w h (PAGE_SIZE - 4) ?X = Inr w1"
    and add: "addPageMetadataBlock (files w1) (tbl_fh rel) = Inr (rca, fs2, fh2)"
    and ci: "c_int (totalNumPages fh2 - 1) = Inr pp"
    and pin: "pinPage (w1\<lparr>files := fs2\<rparr>) bm4 h3 pp = Inr (rcd, w', bm5, h')"
    and rel': "rel' = rel\<lparr>tbl_bm := bm5, tbl_fh := fh2\<rparr>"
    by blast
  from page_write_int_Inr [OF wr] a obtain buf buf1 where
    hb: "heap w a = Some buf" and wi: "write_int buf (PAGE_SIZE - 4) ?X = Inr buf1"
    and w1: "w1 = w\<lparr>heap := (heap w)(a \<mapsto> buf1)\<rparr>"
    by auto
  have "totalNumPages fh2 = ?X + 1"
    using addPageMetadataBlock_result [OF tot, of "files w1"] add by auto
  then have pp: "pp = ?X" using ci by (auto dest: c_int_Inr)
  have ne: "a \<noteq> next_addr w" using hb fresh by auto
  have "heap w' a = Some buf1
        \<or> (\<exists>f \<in> set (mgmtData bm5). data f = Some a \<and> pageNum f = pp)"
  proof (rule heap_pinPage [OF pin])
    show "heap (w1\<lparr>files := fs2\<rparr>) a = Some buf1" by (simp add: w1)
    show "heap (w1\<lparr>files := fs2\<rparr>) (next_addr (w1\<lparr>files := fs2\<rparr>)) = None"
      using ne fresh by (auto simp add: w1)
  qed
  then have h': "heap w' a = Some buf1"
    using keep rel' pp by auto
  have "read_int buf1 (PAGE_SIZE - 4) = Inr ?X"
    using wi tot by (intro read_int_write_int_same) (simp_all add: INT_MIN_def INT_MAX_def)
  moreover have "read_int buf1 (PAGE_SIZE - 2 * 4) = read_int buf (PAGE_SIZE - 2 * 4)"
    using wi by (rule read_int_write_int_other) simp
  ultimately show ?thesis
    using a h' hb by (simp add: page_read_int_heap)
qed


lemma pinPage_keeps_page:
  assumes run: "pinPage w bm h p = Inr (rc, w', bm', h')"
    and hp: "heap w a = Some b" and fresh: "heap w (next_addr w) = None"
    and fl: "files w (pageFile bm) \<noteq> None" and pn: "0 \<le> pn"
    and G: "\<forall>f \<in> set (mgmtData bm). dirty_frame_ok a pn f"
    and I: "page_on_disk w (pageFile bm) pn b \<or> (\<forall>f \<in> set (mgmtData bm). on_buffer_dirty a pn f)"
  shows "heap w' a = Some b \<or> page_on_disk w' (pageFile bm) pn b"
proof -
  from run obtain w1 bm1 flag pnum where
    loop: "pinPage_loop w bm p 0 (- 1) [0..<nat (numPages bm)] = Inr (w1, bm1, flag, pnum)"
    by (auto simp: pinPage_def bindU_Inr_iff)
  have "heap w1 a = Some b \<and> pageFile bm1 = pageFile bm \<and> files w1 (pageFile bm) \<noteq> None
   \<and> (flag = 1 \<and> 0 \<le> pnum \<and> nat pnum < length (mgmtData bm1)
        \<and> data (mgmtData bm1 ! nat pnum) = Some a
      \<longrightarrow> page_on_disk w1 (pageFile bm) pn b)"
    using loop hp fresh fl pn G I by (rule pinPage_loop_keeps_page) simp
  then have h1: "heap w1 a = Some b"
    and post: "flag = 1 \<and> 0 \<le> pnum \<and> nat pnum < length (mgmtData bm1)
                \<and> data (mgmtData bm1 ! nat pnum) = Some a
               \<longrightarrow> page_on_disk w1 (pageFile bm) pn b"
    by simp_all
  consider "flag = 1" | "flag = 2" | "flag \<noteq> 1 \<and> flag \<noteq> 2" by blast
  then show ?thesis
  proof cases
    case 1
    with run loop have
      "\<exists>fl off f a' buf'. frame_at bm1 pnum = Inr f \<and> data f = Some a'
         \<and> w' = w1\<lparr>heap := (heap w1)(a' \<mapsto> snd (fread_page fl (seek_pos off) buf'))\<rparr>"
      by (auto simp: pinPage_def bindU_Inr_iff case_option_Inr_iff Let_def split: if_split_asm)
    then obtain fc off f a' buf' where f: "frame_at bm1 pnum = Inr f" and d: "data f = Some a'"
      and w': "w' = w1\<lparr>heap := (heap w1)(a' \<mapsto> snd (fread_page fc (seek_pos off) buf'))\<rparr>"
      by blast
    show ?thesis
    proof (cases "a' = a")
      case False
      then show ?thesis using w' h1 by simp
    next
      case True
      have "0 \<le> pnum \<and> nat pnum < length (mgmtData bm1) \<and> mgmtData bm1 ! nat pnum = f"
        using f by (auto dest: frame_at_Inr)
      then have "page_on_disk w1 (pageFile bm) pn b" using post 1 d True by simp
      then show ?thesis by (simp add: w' page_on_disk_def)
    qed
  next
    case 2
    with run loop have "w' = w1" by (auto simp: pinPage_def bindU_Inr_iff Let_def)
    then show ?thesis using h1 by simp
  next
    case 3
    with run loop have "w' = w1" by (auto simp: pinPage_def bindU_Inr_iff)
    then show ?thesis using h1 by simp
  qed
qed

lemma markDirty_loop_sole:
  "markDirty_loop bm pn is = Inr (rc, bm') \<Longrightarrow> k \<in> set is \<Longrightarrow>
   pageNum (mgmtData bm ! k) = pn \<Longrightarrow>
   \<forall>j < length (mgmtData bm). j \<noteq> k \<longrightarrow> pageNum (mgmtData bm ! j) \<noteq> pn \<Longrightarrow>
   bm' = set_frame bm (int k) ((mgmtData bm ! k)\<lparr>dirty := True\<rparr>)"
proof (induction "is")
  case Nil
  then show ?case by simp
next
  case (Cons i rest)
  from Cons.prems(1) obtain f where f: "frame_at bm (int i) = Inr f"
    by (auto simp: bindU_Inr_iff)
  have i: "i < length (mgmtData bm)" and fi: "f = mgmtData bm ! i"
    using f by (auto dest: frame_at_Inr)
  show ?case
  proof (cases "i = k")
    case True
    then show ?thesis using Cons.prems f fi by (simp add: bindU_def)
  next
    case False
    then have "pageNum f \<noteq> pn" using Cons.prems(4) i fi by simp
    then have "markDirty_loop bm pn rest = Inr (rc, bm')"
      using Cons.prems(1) f by (simp add: bindU_def)
    moreover have "k \<in> set rest" using Cons.prems(2) False by simp
    ultimately show ?thesis using Cons.prems(3,4) by (rule Cons.IH)
  qed
qed

lemma unpinPage_loop_frames:
  "unpinPage_loop bm pn is = Inr bm' \<Longrightarrow>
     pageFile bm' = pageFile bm \<and> numPages bm' = numPages bm
     \<and> (\<forall>g \<in> set (mgmtData bm'). \<exists>g0 \<in> set (mgmtData bm).
            data g = data g0 \<and> dirty g = dirty g0 \<and> pageNum g = pageNum g0)"
proof (induction "is")
  case Nil
  then show ?case by auto
next
  case (Cons i rest)
  from Cons.prems obtain f where f: "frame_at bm (int i) = Inr f"
    by (auto simp: bindU_Inr_iff)
  have i: "i < length (mgmtData bm)" and fi: "f = mgmtData bm ! i"
    using f by (auto dest: frame_at_Inr)
  have fin: "f \<in> set (mgmtData bm)" using i fi by simp
  show ?case
  proof (cases "pageNum f = pn")
    case False
    with Cons f show ?thesis by (simp add: bindU_def)
  next
    case True
    with Cons.prems f obtain c where bm': "bm' = set_frame bm (int i) (f\<lparr>fixCounts := c\<rparr>)"
      by (auto simp: bindU_Inr_iff)
    have "\<forall>g \<in> set (mgmtData bm'). \<exists>g0 \<in> set (mgmtData bm).
            data g = data g0 \<and> dirty g = dirty g0 \<and> pageNum g = pageNum g0"
    proof
      fix g assume "g \<in> set (mgmtData bm')"
      then have "g \<in> insert (f\<lparr>fixCounts := c\<rparr>) (set (mgmtData bm))"
        using set_update_subset_insert [of "mgmtData bm" i "f\<lparr>fixCounts := c\<rparr>"]
        by (auto simp: bm' set_frame_def)
      then show "\<exists>g0 \<in> set (mgmtData bm).
            data g = data g0 \<and> dirty g = dirty g0 \<and> pageNum g = pageNum g0"
        using fin by auto
    qed
    then show ?thesis by (simp add: bm' set_frame_def)
  qed
qed

lemma read_int_take:
  assumes "0 \<le> off" and "off + 4 \<le> int n" and "n \<le> length buf"
  shows "read_int (take n buf) off = read_int buf off"
proof -
  have "take 4 (drop (nat off) (take n buf)) = take 4 (drop (nat off) buf)"
    using assms by (simp add: drop_take min_def)
  then show ?thesis using assms by (simp add: read_int_def memcpy_from_def)
qed

lemma link_metadata_keeps_pointer:
  assumes run: "link_metadata w rel h = Inr (w', rel', h', off)"
    and tot: "0 \<le> totalNumPages (tbl_fh rel)" "totalNumPages (tbl_fh rel) < INT_MAX"
    and a: "data h = Some a"
    and fresh: "heap w (next_addr w) = None"
    and pn: "0 \<le> pageNum h"
    and fl: "files w (pageFile (tbl_bm rel)) \<noteq> None"
    and k: "k < length (mgmtData (tbl_bm rel))" "int k < numPages (tbl_bm rel)"
    and fk: "data (mgmtData (tbl_bm rel) ! k) = Some a"
            "pageNum (mgmtData (tbl_bm rel) ! k) = pageNum h"
    and others: "\<forall>j < length (mgmtData (tbl_bm rel)). j \<noteq> k \<longrightarrow>
                   data (mgmtData (tbl_bm rel) ! j) \<noteq> Some a
                   \<and> pageNum (mgmtData (tbl_bm rel) ! j) \<noteq> pageNum h"
    and dirty: "\<forall>f \<in> set (mgmtData (tbl_bm rel)). dirty f \<longrightarrow> 0 \<le> pageNum f"
  shows "(page_read_int w' h (PAGE_SIZE - 4) = Inr (totalNumPages (tbl_fh rel))
          \<and> page_read_int w' h (PAGE_SIZE - 2 * 4) = page_read_int w h (PAGE_SIZE - 2 * 4))
       \<or> (\<exists>file. files w' (pageFile (tbl_bm rel)) = Some file
            \<and> read_int (file_page file (nat (pageNum h))) (PAGE_SIZE - 4)
                = Inr (totalNumPages (tbl_fh rel))
            \<and> read_int (file_page file (nat (pageNum h))) (PAGE_SIZE - 2 * 4)
                = page_read_int w h (PAGE_SIZE - 2 * 4))"
proof -
  let ?X = "totalNumPages (tbl_fh rel)"
  let ?bm = "tbl_bm rel"
  let ?fr = "mgmtData ?bm"
  let ?pn = "pageNum h"
  from link_metadata_Inr [OF run] obtain w1 rca fs2 fh2 rcb bm3 h3 rcc bm4 pp rcd bm5 where
    wr: "page_write_int w h (PAGE_SIZE - 4) ?X = Inr w1"
    and add: "addPageMetadataBlock (files w1) (tbl_fh rel) = Inr (rca, fs2, fh2)"
    and md: "markDirty ?bm h = Inr (rcb, bm3, h3)"
    and up: "unpinPage bm3 h3 = Inr (rcc, bm4)"
    and ci: "c_int (totalNumPages fh2 - 1) = Inr pp"
    and pin: "pinPage (w1\<lparr>files := fs2\<rparr>) bm4 h3 pp = Inr (rcd, w', bm5, h')"
    by blast
  from page_write_int_Inr [OF wr] a obtain buf buf1 where
    hb: "heap w a = Some buf" and wi: "write_int buf (PAGE_SIZE - 4) ?X = Inr buf1"
    and w1: "w1 = w\<lparr>heap := (heap w)(a \<mapsto> buf1)\<rparr>"
    by auto
  have fs2: "fs2 (pageFile ?bm) \<noteq> None"
    using addPageMetadataBlock_result [OF tot, of "files w1"] add fl by (auto simp: w1)
  have ne: "a \<noteq> next_addr w" using hb fresh by auto
  from md obtain rcl bml where mdl: "markDirty_loop ?bm ?pn [0..<nat (numPages ?bm)] = Inr (rcl, bml)"
    and bm3: "bm3 = bml"
    by (auto simp: markDirty_def bindU_Inr_iff)
  have kin: "k \<in> set [0..<nat (numPages ?bm)]" using k(2) by auto
  have oth: "\<forall>j < length ?fr. j \<noteq> k \<longrightarrow> pageNum (?fr ! j) \<noteq> ?pn" using others by simp
  have bml: "bml = set_frame ?bm (int k) ((?fr ! k)\<lparr>dirty := True\<rparr>)"
    using mdl kin fk(2) oth by (rule markDirty_loop_sole)
  have fr3: "mgmtData bm3 = ?fr[k := (?fr ! k)\<lparr>dirty := True\<rparr>]"
    and pf3: "pageFile bm3 = pageFile ?bm"
    by (simp_all add: bm3 bml set_frame_def)
  have el3: "g \<in> set (mgmtData bm3) \<Longrightarrow>
               g = (?fr ! k)\<lparr>dirty := True\<rparr> \<or> (\<exists>j < length ?fr. j \<noteq> k \<and> g = ?fr ! j)" for g
  proof -
    assume "g \<in> set (mgmtData bm3)"
    then obtain i where i: "i < length ?fr" and g: "g = ?fr[k := (?fr ! k)\<lparr>dirty := True\<rparr>] ! i"
      unfolding fr3 by (auto simp: in_set_conv_nth)
    show ?thesis
    proof (cases "i = k")
      case True
      then show ?thesis using i g by simp
    next
      case False
      then have "g = ?fr ! i" using g by simp
      then show ?thesis using i False by blast
    qed
  qed
  have Q3: "\<forall>f \<in> set (mgmtData bm3). on_buffer_dirty a ?pn f"
    using el3 fk others by (fastforce simp: on_buffer_dirty_def)
  have G3: "\<forall>f \<in> set (mgmtData bm3). dirty_frame_ok a ?pn f"
  proof
    fix g assume "g \<in> set (mgmtData bm3)"
    then consider "g = (?fr ! k)\<lparr>dirty := True\<rparr>" | j where "j < length ?fr" "j \<noteq> k" "g = ?fr ! j"
      using el3 by blast
    then show "dirty_frame_ok a ?pn g"
    proof cases
      case 1
      then show ?thesis using fk pn by (simp add: dirty_frame_ok_def)
    next
      case 2
      then have "g \<in> set ?fr" by simp
      then show ?thesis using dirty others 2 by (auto simp: dirty_frame_ok_def)
    qed
  qed
  from up obtain bmu where "unpinPage_loop bm3 (pageNum h3) [0..<nat (numPages bm3)] = Inr bmu"
    and "bm4 = bmu"
    by (auto simp: unpinPage_def bindU_Inr_iff)
  then have pf4: "pageFile bm4 = pageFile bm3"
    and fr4: "\<forall>g \<in> set (mgmtData bm4). \<exists>g0 \<in> set (mgmtData bm3).
            data g = data g0 \<and> dirty g = dirty g0 \<and> pageNum g = pageNum g0"
    using unpinPage_loop_frames by blast+
  have Q4: "\<forall>f \<in> set (mgmtData bm4). on_buffer_dirty a ?pn f"
    using Q3 fr4 by (fastforce simp: on_buffer_dirty_def)
  have G4: "\<forall>f \<in> set (mgmtData bm4). dirty_frame_ok a ?pn f"
    using G3 fr4 by (fastforce simp: dirty_frame_ok_def)
  have "heap w' a = Some buf1 \<or> page_on_disk w' (pageFile bm4) ?pn buf1"
  proof (rule pinPage_keeps_page [OF pin])
    show "heap (w1\<lparr>files := fs2\<rparr>) a = Some buf1" by (simp add: w1)
    show "heap (w1\<lparr>files := fs2\<rparr>) (next_addr (w1\<lparr>files := fs2\<rparr>)) = None"
      using ne fresh by (auto simp add: w1)
    show "files (w1\<lparr>files := fs2\<rparr>) (pageFile bm4) \<noteq> None"
      using fs2 by (simp add: pf4 pf3)
    show "0 \<le> ?pn" by (rule pn)
    show "\<forall>f \<in> set (mgmtData bm4). dirty_frame_ok a ?pn f" by (rule G4)
    show "page_on_disk (w1\<lparr>files := fs2\<rparr>) (pageFile bm4) ?pn buf1
          \<or> (\<forall>f \<in> set (mgmtData bm4). on_buffer_dirty a ?pn f)"
      using Q4 by simp
  qed
  then have cases: "heap w' a = Some buf1 \<or> page_on_disk w' (pageFile ?bm) ?pn buf1"
    by (simp add: pf4 pf3)
  have r1: "read_int buf1 (PAGE_SIZE - 4) = Inr ?X"
    using wi tot by (intro read_int_write_int_same) (simp_all add: INT_MIN_def INT_MAX_def)
  have r2: "read_int buf1 (PAGE_SIZE - 2 * 4) = read_int buf (PAGE_SIZE - 2 * 4)"
    using wi by (rule read_int_write_int_other) simp
  have old: "page_read_int w h (PAGE_SIZE - 2 * 4) = read_int buf (PAGE_SIZE - 2 * 4)"
    using a hb by (rule page_read_int_heap)
  from cases show ?thesis
  proof
    assume h': "heap w' a = Some buf1"
    then show ?thesis using a r1 r2 old by (simp add: page_read_int_heap)
  next
    assume "page_on_disk w' (pageFile ?bm) ?pn buf1"
    then obtain fcont where fc: "files w' (pageFile ?bm) = Some fcont"
      and len: "4096 \<le> length buf1" and pg: "file_page fcont (nat ?pn) = take 4096 buf1"
      by (auto simp: page_on_disk_def split: option.split_asm)
    have "read_int (take 4096 buf1) (PAGE_SIZE - 4) = read_int buf1 (PAGE_SIZE - 4)"
      using len by (intro read_int_take) (simp_all add: PAGE_SIZE_def)
    moreover have "read_int (take 4096 buf1) (PAGE_SIZE - 2 * 4) = read_int buf1 (PAGE_SIZE - 2 * 4)"
      using len by (intro read_int_take) (simp_all add: PAGE_SIZE_def)
    ultimately show ?thesis using fc pg r1 r2 old by simp
  qed
qed


lemma bytes_int_2: "bytes_int [2, 0, 0, 0] = 2"
  by (simp add: bytes_int_def)

lemma bytes_int_m1: "bytes_int [255, 255, 255, 255] = - 1"
  by (simp add: bytes_int_def)

lemmas chain_defs =
  world_chain_def pool_chain_def MAKE_PAGE_HANDLE_def pool0_def bm_defs upt_3 replicate_3
  page_read_int_def page_read_def page_buf_def memcpy_from_def Let_def bytes_int_2 bytes_int_m1

lemma chain_first:
  "\<exists>rc w1 bm1 h1 rc' bm2.
      pinPage world_chain pool_chain MAKE_PAGE_HANDLE 1 = Inr (rc, w1, bm1, h1)
    \<and> page_read_int w1 h1 (PAGE_SIZE - 4) = Inr 2
    \<and> unpinPage bm1 h1 = Inr (rc', bm2)
    \<and> (\<exists>w' bm' h'. walk_chain w1 bm2 h1 2 = Some (Inr (w', bm', h')) \<and> pageNum h' = 2)"
  apply (simp add: chain_defs)
  apply (subst walk_chain.simps)
  apply (simp add: chain_defs)
  done


lemma link_example:
  "\<exists>r. link_metadata world_pinned1 table_pinned1 handle_pinned1 = Inr r"
proof -
  obtain blk where len: "length blk = 4096"
    and add: "addPageMetadataBlock (files world0)
                \<lparr>fileName = ''t.bin'', totalNumPages = 5, curPagePos = 0\<rparr>
               = Inr (RC_OK,
                      (files world0)(''t.bin'' \<mapsto>
                           fwrite_at (replicate 20480 0 @ replicate 4096 0) (5 * 4096) blk),
                      \<lparr>fileName = ''t.bin'', totalNumPages = 6, curPagePos = 5\<rparr>)"
    using addPageMetadataBlock_result
            [of "\<lparr>fileName = ''t.bin'', totalNumPages = 5, curPagePos = 0\<rparr>" "files world0"]
    by (auto simp add: INT_MAX_def world0_def)
  show ?thesis
    using len add
    by (simp add: link_metadata_def table_pinned1_def handle_pinned1_def world_pinned1_def
          pool_pinned1_def page_write_int_def page_write_def page_buf_def memcpy_to_def
          markDirty_def bm_defs Let_def fwrite_at_def memcpy_from_def)
qed

lemma sole_frame_others:
  assumes "sole_frame k a pn bm"
  shows "\<forall>j < length (mgmtData bm). j \<noteq> k \<longrightarrow>
           data (mgmtData bm ! j) \<noteq> Some a \<and> pageNum (mgmtData bm ! j) \<noteq> pn"
  using assms by (auto simp: sole_frame_def list_all_iff)

lemma link_example2:
  "\<exists>lw lrel lh. link_metadata world_pinned1 table_pinned2 handle_pinned1 = Inr (lw, lrel, lh, 8)
      \<and> list_all (\<lambda>f. data f = Some 0 \<longrightarrow> pageNum f \<noteq> 5) (mgmtData (tbl_bm lrel))"
proof -
  obtain blk where len: "length blk = 4096"
    and add: "addPageMetadataBlock (files world0)
                \<lparr>fileName = ''t.bin'', totalNumPages = 5, curPagePos = 0\<rparr>
               = Inr (RC_OK,
                      (files world0)(''t.bin'' \<mapsto>
                           fwrite_at (replicate 20480 0 @ replicate 4096 0) (5 * 4096) blk),
                      \<lparr>fileName = ''t.bin'', totalNumPages = 6, curPagePos = 5\<rparr>)"
    using addPageMetadataBlock_result
            [of "\<lparr>fileName = ''t.bin'', totalNumPages = 5, curPagePos = 0\<rparr>" "files world0"]
    by (auto simp add: INT_MAX_def world0_def)
  show ?thesis
    using len add
    by (simp add: link_metadata_def table_pinned2_def handle_pinned1_def world_pinned1_def
          pool_pinned2_def page_write_int_def page_write_def page_buf_def memcpy_to_def
          markDirty_def bm_defs Let_def fwrite_at_def memcpy_from_def upt_2)
qed

text \<open>
  C4 (as amended). The forward pointer of a page-metadata page is the integer in the
  last four bytes of the page, at offset \<^verbatim>\<open>PAGE_SIZE - 4\<close>: the second field of its last
  pair, not the page-number field at \<^verbatim>\<open>PAGE_SIZE - 8\<close>.
  \<^item> \<^verbatim>\<open>addPageMetadataBlock\<close> on a handle of \<open>n\<close> pages returns \<^verbatim>\<open>RC_OK\<close> and leaves in
    page \<open>n\<close> of the file \<open>-1\<close> in the last four bytes and \<open>n\<close>, the page's own number, in
    the four bytes before them.
  \<^item> The first loop of \<^verbatim>\<open>insertRecord\<close> goes from a page whose last four bytes hold
    another number to the page of that number, and where it ends the pinned page holds
    \<open>-1\<close> there.
  \<^item> After the block of \<^verbatim>\<open>insertRecord\<close> that links a new page-metadata page has
    returned, the old page holds the number of the new page, the page count of the file
    before the call, in its last four bytes, and its page-number field is as before:
    in its buffer, when no frame on that buffer was given to the new page; and in any
    pool in which one frame alone holds the old page and its buffer, either in the
    buffer or, written back at eviction, in the page file.
\<close>

theorem metadata_forward_pointer:
  "(0 \<le> totalNumPages fh \<and> totalNumPages fh < INT_MAX \<longrightarrow>
      (\<exists>fs' fh' file.
           addPageMetadataBlock fs fh = Inr (RC_OK, fs', fh')
         \<and> fs' (fileName fh) = Some file
         \<and> read_int (file_page file (nat (totalNumPages fh))) (PAGE_SIZE - 4) = Inr (- 1)
         \<and> read_int (file_page file (nat (totalNumPages fh))) (PAGE_SIZE - 2 * 4)
             = Inr (totalNumPages fh)))
   \<and> (walk_chain w bm h p = Some (Inr (w', bm', h'))
        \<longrightarrow> page_read_int w' h' (PAGE_SIZE - 4) = Inr (- 1))
   \<and> (pinPage w bm h p = Inr (rc, w1, bm1, h1)
        \<and> page_read_int w1 h1 (PAGE_SIZE - 4) = Inr nxt \<and> nxt \<noteq> - 1
        \<and> unpinPage bm1 h1 = Inr (rc', bm2)
        \<longrightarrow> walk_chain w bm h p = walk_chain w1 bm2 h1 nxt)
   \<and> (link_metadata wl rel hl = Inr (wl', rel', hl', off)
        \<and> 0 \<le> totalNumPages (tbl_fh rel) \<and> totalNumPages (tbl_fh rel) < INT_MAX
        \<and> data hl = Some a \<and> heap wl (next_addr wl) = None
        \<and> list_all (\<lambda>f. data f = Some a \<longrightarrow> pageNum f \<noteq> totalNumPages (tbl_fh rel))
             (mgmtData (tbl_bm rel'))
        \<longrightarrow> page_read_int wl' hl (PAGE_SIZE - 4) = Inr (totalNumPages (tbl_fh rel))
            \<and> page_read_int wl' hl (PAGE_SIZE - 2 * 4) = page_read_int wl hl (PAGE_SIZE - 2 * 4))
   \<and> (link_metadata wl rel hl = Inr (wl', rel', hl', off)
        \<and> 0 \<le> totalNumPages (tbl_fh rel) \<and> totalNumPages (tbl_fh rel) < INT_MAX
        \<and> data hl = Some a \<and> heap wl (next_addr wl) = None
        \<and> 0 \<le> pageNum hl \<and> files wl (pageFile (tbl_bm rel)) \<noteq> None
        \<and> sole_frame k a (pageNum hl) (tbl_bm rel)
        \<longrightarrow> (page_read_int wl' hl (PAGE_SIZE - 4) = Inr (totalNumPages (tbl_fh rel))
              \<and> page_read_int wl' hl (PAGE_SIZE - 2 * 4) = page_read_int wl hl (PAGE_SIZE - 2 * 4))
            \<or> (\<exists>file. files wl' (pageFile (tbl_bm rel)) = Some file
                 \<and> read_int (file_page file (nat (pageNum hl))) (PAGE_SIZE - 4)
                     = Inr (totalNumPages (tbl_fh rel))
                 \<and> read_int (file_page file (nat (pageNum hl))) (PAGE_SIZE - 2 * 4)
                     = page_read_int wl hl (PAGE_SIZE - 2 * 4)))"
proof (intro conjI impI)
  assume "0 \<le> totalNumPages fh \<and> totalNumPages fh < INT_MAX"
  then show "\<exists>fs' fh' file.
           addPageMetadataBlock fs fh = Inr (RC_OK, fs', fh')
         \<and> fs' (fileName fh) = Some file
         \<and> read_int (file_page file (nat (totalNumPages fh))) (PAGE_SIZE - 4) = Inr (- 1)
         \<and> read_int (file_page file (nat (totalNumPages fh))) (PAGE_SIZE - 2 * 4)
             = Inr (totalNumPages fh)"
    using addPageMetadataBlock_last_pair [of fh fs] by simp
next
  assume "walk_chain w bm h p = Some (Inr (w', bm', h'))"
  then show "page_read_int w' h' (PAGE_SIZE - 4) = Inr (- 1)"
    by (rule walk_chain_end)
next
  assume "pinPage w bm h p = Inr (rc, w1, bm1, h1)
        \<and> page_read_int w1 h1 (PAGE_SIZE - 4) = Inr nxt \<and> nxt \<noteq> - 1
        \<and> unpinPage bm1 h1 = Inr (rc', bm2)"
  then show "walk_chain w bm h p = walk_chain w1 bm2 h1 nxt"
    by (subst walk_chain.simps) simp
next
  assume a: "link_metadata wl rel hl = Inr (wl', rel', hl', off)
        \<and> 0 \<le> totalNumPages (tbl_fh rel) \<and> totalNumPages (tbl_fh rel) < INT_MAX
        \<and> data hl = Some a \<and> heap wl (next_addr wl) = None
        \<and> list_all (\<lambda>f. data f = Some a \<longrightarrow> pageNum f \<noteq> totalNumPages (tbl_fh rel))
             (mgmtData (tbl_bm rel'))"
  then have "page_read_int wl' hl (PAGE_SIZE - 4) = Inr (totalNumPages (tbl_fh rel))
       \<and> page_read_int wl' hl (PAGE_SIZE - 2 * 4) = page_read_int wl hl (PAGE_SIZE - 2 * 4)"
    by (intro link_metadata_buffer [of wl rel hl wl' rel' hl' off a]) (simp_all add: list_all_iff)
  then show "page_read_int wl' hl (PAGE_SIZE - 4) = Inr (totalNumPages (tbl_fh rel))"
    and "page_read_int wl' hl (PAGE_SIZE - 2 * 4) = page_read_int wl hl (PAGE_SIZE - 2 * 4)"
    by simp_all
next
  assume a: "link_metadata wl rel hl = Inr (wl', rel', hl', off)
        \<and> 0 \<le> totalNumPages (tbl_fh rel) \<and> totalNumPages (tbl_fh rel) < INT_MAX
        \<and> data hl = Some a \<and> heap wl (next_addr wl) = None
        \<and> 0 \<le> pageNum hl \<and> files wl (pageFile (tbl_bm rel)) \<noteq> None
        \<and> sole_frame k a (pageNum hl) (tbl_bm rel)"
  then have sf: "sole_frame k a (pageNum hl) (tbl_bm rel)" by simp
  show "(page_read_int wl' hl (PAGE_SIZE - 4) = Inr (totalNumPages (tbl_fh rel))
              \<and> page_read_int wl' hl (PAGE_SIZE - 2 * 4) = page_read_int wl hl (PAGE_SIZE - 2 * 4))
            \<or> (\<exists>file. files wl' (pageFile (tbl_bm rel)) = Some file
                 \<and> read_int (file_page file (nat (pageNum hl))) (PAGE_SIZE - 4)
                     = Inr (totalNumPages (tbl_fh rel))
                 \<and> read_int (file_page file (nat (pageNum hl))) (PAGE_SIZE - 2 * 4)
                     = page_read_int wl hl (PAGE_SIZE - 2 * 4))"
    using a sole_frame_others [OF sf]
    by (intro link_metadata_keeps_pointer [of wl rel hl wl' rel' hl' off a k])
       (simp_all add: sole_frame_def list_all_iff)
qed

theorem metadata_forward_pointer_witness:
  "(\<exists>fs' fh' file.
       addPageMetadataBlock (files world0)
         \<lparr>fileName = ''t.bin'', totalNumPages = 5, curPagePos = 0\<rparr> = Inr (RC_OK, fs', fh')
     \<and> fs' ''t.bin'' = Some file
     \<and> read_int (file_page file 5) (PAGE_SIZE - 4) = Inr (- 1)
     \<and> read_int (file_page file 5) (PAGE_SIZE - 2 * 4) = Inr 5)
   \<and> (\<exists>rc w1 bm1 h1 rc' bm2 w' bm' h'.
         pinPage world_chain pool_chain MAKE_PAGE_HANDLE 1 = Inr (rc, w1, bm1, h1)
       \<and> page_read_int w1 h1 (PAGE_SIZE - 4) = Inr 2
       \<and> unpinPage bm1 h1 = Inr (rc', bm2)
       \<and> walk_chain world_chain pool_chain MAKE_PAGE_HANDLE 1 = walk_chain w1 bm2 h1 2
       \<and> walk_chain world_chain pool_chain MAKE_PAGE_HANDLE 1 = Some (Inr (w', bm', h'))
       \<and> pageNum h' = 2
       \<and> page_read_int w' h' (PAGE_SIZE - 4) = Inr (- 1))
   \<and> (\<exists>lw lrel lh.
         link_metadata world_pinned1 table_pinned2 handle_pinned1 = Inr (lw, lrel, lh, 8)
       \<and> list_all (\<lambda>f. data f = Some 0 \<longrightarrow> pageNum f \<noteq> 5) (mgmtData (tbl_bm lrel))
       \<and> page_read_int lw handle_pinned1 (PAGE_SIZE - 4) = Inr 5
       \<and> page_read_int lw handle_pinned1 (PAGE_SIZE - 2 * 4) = Inr 0)
   \<and> (\<exists>lw lrel lh loff.
         link_metadata world_pinned1 table_pinned1 handle_pinned1 = Inr (lw, lrel, lh, loff)
       \<and> sole_frame 0 0 0 pool_pinned1
       \<and> ((page_read_int lw handle_pinned1 (PAGE_SIZE - 4) = Inr 5
            \<and> page_read_int lw handle_pinned1 (PAGE_SIZE - 2 * 4) = Inr 0)
          \<or> (\<exists>file. files lw ''t.bin'' = Some file
               \<and> read_int (file_page file 0) (PAGE_SIZE - 4) = Inr 5
               \<and> read_int (file_page file 0) (PAGE_SIZE - 2 * 4) = Inr 0)))"
proof -
  obtain rc w1 bm1 h1 rc' bm2 w' bm' h' where
    p: "pinPage world_chain pool_chain MAKE_PAGE_HANDLE 1 = Inr (rc, w1, bm1, h1)"
    and n: "page_read_int w1 h1 (PAGE_SIZE - 4) = Inr 2"
    and u: "unpinPage bm1 h1 = Inr (rc', bm2)"
    and e: "walk_chain w1 bm2 h1 2 = Some (Inr (w', bm', h'))"
    and pn: "pageNum h' = 2"
    using chain_first by blast
  obtain lw2 lrel2 lh2 where
    l2: "link_metadata world_pinned1 table_pinned2 handle_pinned1 = Inr (lw2, lrel2, lh2, 8)"
    and k2: "list_all (\<lambda>f. data f = Some 0 \<longrightarrow> pageNum f \<noteq> 5) (mgmtData (tbl_bm lrel2))"
    using link_example2 by blast
  obtain lw lrel lh loff where
    l: "link_metadata world_pinned1 table_pinned1 handle_pinned1 = Inr (lw, lrel, lh, loff)"
    using link_example by (metis prod_cases4)
  have z: "page_read_int world_pinned1 handle_pinned1 (PAGE_SIZE - 2 * 4) = Inr 0"
    by (simp add: world_pinned1_def handle_pinned1_def page_read_int_def page_read_def
          page_buf_def memcpy_from_def bindU_def PAGE_SIZE_def bytes_int_def)
  have sf: "sole_frame 0 0 0 pool_pinned1"
    by (simp add: sole_frame_def pool_pinned1_def)
  have env: "data handle_pinned1 = Some 0" "heap world_pinned1 (next_addr world_pinned1) = None"
    "pageNum handle_pinned1 = 0" "files world_pinned1 ''t.bin'' \<noteq> None"
    "totalNumPages (tbl_fh table_pinned2) = 5" "totalNumPages (tbl_fh table_pinned1) = 5"
    "tbl_bm table_pinned1 = pool_pinned1" "pageFile pool_pinned1 = ''t.bin''"
    by (simp_all add: handle_pinned1_def world_pinned1_def world0_def table_pinned2_def
          table_pinned1_def pool_pinned1_def)
  show ?thesis
    using metadata_forward_pointer
            [of "\<lparr>fileName = ''t.bin'', totalNumPages = 5, curPagePos = 0\<rparr>" "files world0"
                world_chain pool_chain MAKE_PAGE_HANDLE 1 w' bm' h' rc w1 bm1 h1 2 rc' bm2
                world_pinned1 table_pinned2 handle_pinned1 lw2 lrel2 lh2 8 0 0]
          metadata_forward_pointer
            [of "\<lparr>fileName = ''t.bin'', totalNumPages = 5, curPagePos = 0\<rparr>" "files world0"
                world_chain pool_chain MAKE_PAGE_HANDLE 1 w' bm' h' rc w1 bm1 h1 2 rc' bm2
                world_pinned1 table_pinned1 handle_pinned1 lw lrel lh loff 0 0]
      p n u e pn l2 k2 l z sf env
    by (simp add: INT_MAX_def)
qed

text \<open>
  C4 as stated fails: on a file of five pages \<^verbatim>\<open>addPageMetadataBlock\<close> returns
  \<^verbatim>\<open>RC_OK\<close> and the page-number field of the last pair of the new page 5 holds 5, not
  \<open>-1\<close>; the \<open>-1\<close> is in the field behind it.
\<close>

theorem metadata_last_pair_counterexample:
  "fst (projr (addPageMetadataBlock (files world0)
                 \<lparr>fileName = ''t.bin'', totalNumPages = 5, curPagePos = 0\<rparr>)) = RC_OK
   \<and> read_int (file_page (the (fst (snd (projr (addPageMetadataBlock (files world0)
                   \<lparr>fileName = ''t.bin'', totalNumPages = 5, curPagePos = 0\<rparr>))) ''t.bin'')) 5)
        (PAGE_SIZE - 2 * 4) = Inr 5
   \<and> read_int (file_page (the (fst (snd (projr (addPageMetadataBlock (files world0)
                   \<lparr>fileName = ''t.bin'', totalNumPages = 5, curPagePos = 0\<rparr>))) ''t.bin'')) 5)
        (PAGE_SIZE - 4) = Inr (- 1)"
  using addPageMetadataBlock_last_pair
          [of "\<lparr>fileName = ''t.bin'', totalNumPages = 5, curPagePos = 0\<rparr>" "files world0"]
  by (auto simp add: INT_MAX_def)


end
